theory Spec2Isabelle
  imports Complex_Main "HOL-Library.Sublist" "HOL-Library.Multiset"
begin

section \<open>Change events and the change-set resolver (util.js, in src/unnamed/part_000)\<close>

text \<open>
  An entry of an archive's history, as \<open>archive.history\<close> delivers it: the path of the
  file, the kind of change (a JavaScript string, compared with \<open>'del'\<close> by the posts
  crawler) and the archive version at which it happened.
\<close>

record ChangeEvent =
  name :: string
  type :: string
  version :: int

text \<open>
  \<open>Array.prototype.findIndex\<close>: the index of the first element that satisfies the
  predicate, \<open>-1\<close> when there is none.
\<close>

fun findIndex_from :: "('a \<Rightarrow> bool) \<Rightarrow> 'a list \<Rightarrow> int \<Rightarrow> int" where
  "findIndex_from p [] i = - 1"
| "findIndex_from p (x # xs) i = (if p x then i else findIndex_from p xs (i + 1))"

definition findIndex :: "('a \<Rightarrow> bool) \<Rightarrow> 'a list \<Rightarrow> int" where
  "findIndex p xs = findIndex_from p xs 0"

text \<open>
  \<open>list.splice(i, 1)\<close> for an index \<open>0 \<le> i\<close>: the element at \<open>i\<close> is removed, and
  nothing happens when \<open>i\<close> is beyond the end. The source calls it only under the guard
  \<open>i !== -1\<close>, on an index that \<open>findIndex\<close> returned.
\<close>

definition splice1 :: "'a list \<Rightarrow> int \<Rightarrow> 'a list" where
  "splice1 xs i = take (nat i) xs @ drop (nat i + 1) xs"

text \<open>
  The body of the \<open>forEach\<close> callback of \<open>getMatchingChangesInOrder\<close>. The regular
  expression is used through \<open>regex.test(c.name)\<close> only and is a predicate on names here
  (the expression the posts crawler passes has no \<open>g\<close> or \<open>y\<close> flag, so \<open>test\<close> keeps
  no state between calls).
\<close>

definition matching_step :: "(string \<Rightarrow> bool) \<Rightarrow> ChangeEvent list \<Rightarrow> ChangeEvent \<Rightarrow> ChangeEvent list" where
  "matching_step regex list c =
     (if regex (name c)
      then (let i = findIndex (\<lambda>c2. name c2 = name c) list
            in (if i \<noteq> - 1 then splice1 list i else list) @ [c])
      else list)"

definition getMatchingChangesInOrder :: "ChangeEvent list \<Rightarrow> (string \<Rightarrow> bool) \<Rightarrow> ChangeEvent list" where
  "getMatchingChangesInOrder changes regex = foldl (matching_step regex) [] changes"

text \<open>
  The position of the latest occurrence of a name in a list of change events (\<open>0\<close> when
  the name does not occur), and the events that are the latest occurrence of a matching
  name, in the order of the input.
\<close>

fun latest_pos :: "string \<Rightarrow> ChangeEvent list \<Rightarrow> nat" where
  "latest_pos n [] = 0"
| "latest_pos n (c # cs) = (if n \<in> name ` set cs then Suc (latest_pos n cs) else 0)"

fun latest_matching :: "(string \<Rightarrow> bool) \<Rightarrow> ChangeEvent list \<Rightarrow> ChangeEvent list" where
  "latest_matching regex [] = []"
| "latest_matching regex (c # cs) =
     (if regex (name c) \<and> name c \<notin> name ` set cs
      then c # latest_matching regex cs
      else latest_matching regex cs)"

section \<open>The index store and the archive (collaborators of the crawler)\<close>

text \<open>
  The rows of the three tables the crawler reads and writes. \<open>crawl_sources_meta\<close>
  holds the checkpoints, one row per dataset and source; \<open>crawl_posts\<close> holds the
  indexed posts; \<open>crawl_sources\<close> maps the id of a source to its url. A
  \<open>CrawlSourceRecord\<close> of the source is a row of \<open>crawl_sources\<close>. The column
  \<open>createdAt\<close> of a post is \<open>Number(new Date(...))\<close> of what the file says and is
  \<open>None\<close> where JavaScript has \<open>NaN\<close>.
\<close>

record crawl_sources_meta_row =
  crawlDataset :: string
  crawlDatasetVersion :: int
  crawlSourceId :: string
  crawlSourceVersion :: int
  updatedAt :: int

record crawl_posts_row =
  post_crawlSourceId :: string
  post_pathname :: string
  post_crawledAt :: int
  post_body :: string
  post_createdAt :: "int option"
  post_updatedAt :: int

record CrawlSourceRecord =
  source_id :: string
  source_url :: string

text \<open>
  The statements the crawler passes to \<open>db.run\<close>, and the events it emits on
  \<open>crawlerEvents\<close> and on the event emitter of the posts crawler.
\<close>

datatype db_statement =
    DELETE_crawl_sources_meta string string
  | INSERT_crawl_sources_meta crawl_sources_meta_row
  | DELETE_crawl_posts_of_source string
  | DELETE_crawl_posts string string
  | UPDATE_crawl_posts int string "int option" int string string
  | INSERT_crawl_posts crawl_posts_row

datatype crawler_event =
    crawl_dataset_start string string int int
  | crawl_dataset_progress string string nat nat
  | crawl_dataset_finish string string int int
  | post_removed string
  | post_updated string
  | post_added string

text \<open>
  The state a crawl works on: the tables, the statements that were run (oldest first)
  and the events that were emitted (oldest first). The storage engine is taken to run
  every statement it is given; a statement that fails inside the engine is not modelled.
\<close>

record db =
  crawl_sources :: "CrawlSourceRecord list"
  crawl_sources_meta :: "crawl_sources_meta_row list"
  crawl_posts :: "crawl_posts_row list"
  journal :: "db_statement list"
  emitted :: "crawler_event list"

fun apply_statement :: "db_statement \<Rightarrow> db \<Rightarrow> db" where
  "apply_statement (DELETE_crawl_sources_meta dataset sid) d =
     d\<lparr>crawl_sources_meta :=
         filter (\<lambda>r. \<not> (crawlDataset r = dataset \<and> crawlSourceId r = sid)) (crawl_sources_meta d)\<rparr>"
| "apply_statement (INSERT_crawl_sources_meta r) d =
     d\<lparr>crawl_sources_meta := crawl_sources_meta d @ [r]\<rparr>"
| "apply_statement (DELETE_crawl_posts_of_source sid) d =
     d\<lparr>crawl_posts := filter (\<lambda>p. post_crawlSourceId p \<noteq> sid) (crawl_posts d)\<rparr>"
| "apply_statement (DELETE_crawl_posts sid path) d =
     d\<lparr>crawl_posts :=
         filter (\<lambda>p. \<not> (post_crawlSourceId p = sid \<and> post_pathname p = path)) (crawl_posts d)\<rparr>"
| "apply_statement (UPDATE_crawl_posts crawled b created updated sid path) d =
     d\<lparr>crawl_posts :=
         map (\<lambda>p. if post_crawlSourceId p = sid \<and> post_pathname p = path
                  then p\<lparr>post_crawledAt := crawled, post_body := b,
                         post_createdAt := created, post_updatedAt := updated\<rparr>
                  else p)
             (crawl_posts d)\<rparr>"
| "apply_statement (INSERT_crawl_posts p) d =
     d\<lparr>crawl_posts := crawl_posts d @ [p]\<rparr>"

definition db_run :: "db_statement \<Rightarrow> db \<Rightarrow> db" where
  "db_run st d = (apply_statement st d)\<lparr>journal := journal d @ [st]\<rparr>"

definition emit :: "crawler_event \<Rightarrow> db \<Rightarrow> db" where
  "emit e d = d\<lparr>emitted := emitted d @ [e]\<rparr>"

text \<open>
  The archive as the crawler uses it: its url, the version the daemon reports for it
  (\<open>None\<close> when \<open>getArchiveInfo\<close> returns nothing), its history between two versions
  (\<open>None\<close> when the stream fails or times out) and the content of its files (\<open>None\<close>
  when \<open>readFile\<close> fails).
\<close>

record InternalDatArchive =
  archive_url :: string
  archiveInfo_version :: "int option"
  history :: "int \<Rightarrow> int \<Rightarrow> ChangeEvent list option"
  readFile :: "string \<Rightarrow> string option"

text \<open>
  What the posts crawler takes from its runtime. \<open>Date_now\<close> is the clock, read as one
  value during a run. \<open>parse_post\<close> stands for \<open>JSON.parse\<close>, the validation against
  the post schema (which is not part of these sources) and the conversion of the two dates
  by \<open>Number(new Date(...))\<close>: \<open>None\<close> when parsing or validation fails, the body and
  the two numbers (\<open>None\<close> for \<open>NaN\<close>) otherwise. \<open>URL_parse\<close> is \<open>new URL(url)\<close>:
  \<open>None\<close> when it throws, the origin and the pathname otherwise.
\<close>

record parsed_post =
  content_body :: string
  createdAt_number :: "int option"
  updatedAt_number :: "int option"

record runtime =
  Date_now :: int
  parse_post :: "string \<Rightarrow> parsed_post option"
  URL_parse :: "string \<Rightarrow> (string \<times> string) option"

text \<open>The errors a crawl can end with (the promise is rejected).\<close>

datatype crawl_error = HistoryReadFailed | FailedToParsePostURL string | TypeError

section \<open>The crawl orchestrator (util.js, in src/unnamed/part_000)\<close>

text \<open>
  \<open>doCheckpoint\<close>: the row of the dataset and source is deleted and a new one is
  inserted.
\<close>

definition doCheckpoint :: "runtime \<Rightarrow> string \<Rightarrow> int \<Rightarrow> CrawlSourceRecord \<Rightarrow> int \<Rightarrow> db \<Rightarrow> db" where
  "doCheckpoint rt dataset datasetVersion source sourceVersion d =
     db_run (INSERT_crawl_sources_meta
               \<lparr>crawlDataset = dataset, crawlDatasetVersion = datasetVersion,
                crawlSourceId = source_id source, crawlSourceVersion = sourceVersion,
                updatedAt = Date_now rt\<rparr>)
       (db_run (DELETE_crawl_sources_meta dataset (source_id source)) d)"

text \<open>
  The \<open>SELECT\<close> at the head of \<open>doCrawl\<close>: the first row of the source and dataset,
  if there is one.
\<close>

definition get_crawl_state :: "CrawlSourceRecord \<Rightarrow> string \<Rightarrow> db \<Rightarrow> crawl_sources_meta_row option" where
  "get_crawl_state source dataset d =
     find (\<lambda>r. crawlSourceId r = source_id source \<and> crawlDataset r = dataset) (crawl_sources_meta d)"

text \<open>
  Lines 38 to 49 of \<open>doCrawl\<close>: \<open>resetRequired\<close> and the source version the run starts
  from.
\<close>

definition resetRequired_of :: "crawl_sources_meta_row option \<Rightarrow> int \<Rightarrow> bool" where
  "resetRequired_of state datasetVersion =
     (case state of None \<Rightarrow> False | Some s \<Rightarrow> crawlDatasetVersion s \<noteq> datasetVersion)"

definition state_crawlSourceVersion :: "crawl_sources_meta_row option \<Rightarrow> int \<Rightarrow> int" where
  "state_crawlSourceVersion state datasetVersion =
     (case state of
        None \<Rightarrow> 0
      | Some s \<Rightarrow> if crawlDatasetVersion s \<noteq> datasetVersion then 0 else crawlSourceVersion s)"

definition archive_version :: "InternalDatArchive \<Rightarrow> int" where
  "archive_version archive = (case archiveInfo_version archive of None \<Rightarrow> 0 | Some v \<Rightarrow> v)"

record handler_args =
  changes :: "ChangeEvent list"
  resetRequired :: bool

text \<open>
  \<open>doCrawl\<close>. The handler works on the state and returns it with \<open>None\<close> when it
  returns, with the error when it throws; what it wrote before throwing stays written.
\<close>

definition doCrawl ::
  "runtime \<Rightarrow> InternalDatArchive \<Rightarrow> CrawlSourceRecord \<Rightarrow> string \<Rightarrow> int \<Rightarrow>
   (handler_args \<Rightarrow> db \<Rightarrow> db \<times> crawl_error option) \<Rightarrow> db \<Rightarrow> db \<times> crawl_error option" where
  "doCrawl rt archive source dataset datasetVersion handlerFn d =
     (let state = get_crawl_state source dataset d;
          reset = resetRequired_of state datasetVersion;
          v = archive_version archive;
          start = state_crawlSourceVersion state datasetVersion + 1;
          end' = v + 1
      in case history archive start end' of
           None \<Rightarrow> (d, Some HistoryReadFailed)
         | Some cs \<Rightarrow>
             (let d1 = emit (crawl_dataset_start (archive_url archive) dataset start end') d
              in case handlerFn \<lparr>changes = cs, resetRequired = reset\<rparr> d1 of
                   (d2, Some err) \<Rightarrow> (d2, Some err)
                 | (d2, None) \<Rightarrow>
                     (emit (crawl_dataset_finish (archive_url archive) dataset start end')
                        (doCheckpoint rt dataset datasetVersion source v d2), None)))"

section \<open>The posts crawler (posts.js, src/unnamed/part_001)\<close>

text \<open>
  \<open>String.prototype.toLowerCase\<close> on the letters \<open>A\<close> to \<open>Z\<close>; a string is a list of
  bytes here, and the bytes beyond ASCII are left as they are.
\<close>

definition toLowerCase_char :: "char \<Rightarrow> char" where
  "toLowerCase_char c =
     (let n = (of_char c :: nat) in if 65 \<le> n \<and> n \<le> 90 then char_of (n + 32) else c)"

definition toLowerCase :: "string \<Rightarrow> string" where
  "toLowerCase s = map toLowerCase_char s"

definition TABLE_VERSION :: int where
  "TABLE_VERSION = 1"

text \<open>
  \<open>JSON_PATH_REGEX\<close>, the expression \<^verbatim>\<open>/^\/data\/feed\/([^/]+)\.json$/i\<close>, as the
  predicate \<open>JSON_PATH_REGEX.test\<close>: the name is \<open>/data/feed/\<close>, one or more
  characters other than a slash, and \<open>.json\<close>, letters compared without case.
\<close>

definition JSON_PATH_REGEX :: "string \<Rightarrow> bool" where
  "JSON_PATH_REGEX s =
     (let l = toLowerCase s
      in 17 \<le> length s \<and> take 11 l = ''/data/feed/'' \<and> drop (length s - 5) l = ''.json'' \<and>
         CHR ''/'' \<notin> set (take (length s - 16) (drop 11 s)))"

definition emitProgressEvent :: "string \<Rightarrow> string \<Rightarrow> nat \<Rightarrow> nat \<Rightarrow> db \<Rightarrow> db" where
  "emitProgressEvent sourceUrl dataset progress numUpdates d =
     emit (crawl_dataset_progress sourceUrl dataset progress numUpdates) d"

text \<open>
  \<open>get(url, pathname)\<close>: the first post with the pathname whose source has the origin
  of the url in \<open>crawl_sources\<close>. The description of the author that \<open>massagePostRow\<close>
  adds to the row is left out: \<open>crawlSite\<close> only tests whether a post came back.
\<close>

definition get :: "runtime \<Rightarrow> string \<Rightarrow> string \<Rightarrow> db \<Rightarrow> crawl_error + crawl_posts_row option" where
  "get rt url pathname d =
     (if url = [] then Inl TypeError
      else case URL_parse rt url of
             None \<Rightarrow> Inl (FailedToParsePostURL url)
           | Some (origin, url_pathname) \<Rightarrow>
               (let path = (if pathname = [] then url_pathname else pathname)
                in Inr (find (\<lambda>p. post_pathname p = path \<and>
                                   (\<exists>src \<in> set (crawl_sources d).
                                      source_id src = post_crawlSourceId p \<and> source_url src = origin))
                             (crawl_posts d))))"

text \<open>
  Lines 116 to 136 of \<open>crawlSite\<close>: the dates are normalised and the post is updated
  when \<open>get\<close> finds it, inserted otherwise.
\<close>

definition upsert_post ::
  "runtime \<Rightarrow> InternalDatArchive \<Rightarrow> CrawlSourceRecord \<Rightarrow> ChangeEvent \<Rightarrow> parsed_post \<Rightarrow> db \<Rightarrow> crawl_error + db" where
  "upsert_post rt archive source changedPost post d =
     (let created = createdAt_number post;
          updated = (case updatedAt_number post of None \<Rightarrow> 0 | Some u \<Rightarrow> u)
      in case get rt (archive_url archive) (name changedPost) d of
           Inl err \<Rightarrow> Inl err
         | Inr (Some existingPost) \<Rightarrow>
             Inr (emit (post_updated (archive_url archive))
                    (db_run (UPDATE_crawl_posts (Date_now rt) (content_body post) created updated
                               (source_id source) (name changedPost)) d))
         | Inr None \<Rightarrow>
             Inr (emit (post_added (archive_url archive))
                    (db_run (INSERT_crawl_posts
                               \<lparr>post_crawlSourceId = source_id source, post_pathname = name changedPost,
                                post_crawledAt = Date_now rt, post_body = content_body post,
                                post_createdAt = created, post_updatedAt = updated\<rparr>) d)))"

text \<open>Lines 139 to 142: the checkpoint at the version of the entry, and the progress event.\<close>

definition checkpoint_progress ::
  "runtime \<Rightarrow> InternalDatArchive \<Rightarrow> CrawlSourceRecord \<Rightarrow> ChangeEvent \<Rightarrow> nat \<Rightarrow> nat \<Rightarrow> db \<Rightarrow> db" where
  "checkpoint_progress rt archive source changedPost progress numUpdates d =
     emitProgressEvent (archive_url archive) ''crawl_posts'' progress numUpdates
       (doCheckpoint rt ''crawl_posts'' TABLE_VERSION source (version changedPost) d)"

text \<open>
  The loop over \<open>changedPosts\<close>. A file that cannot be read ends the handler with
  \<open>return\<close>: the handler returns and has not thrown. A file that cannot be parsed is
  skipped with \<open>continue\<close>.
\<close>

fun crawl_posts_loop ::
  "runtime \<Rightarrow> InternalDatArchive \<Rightarrow> CrawlSourceRecord \<Rightarrow> nat \<Rightarrow> ChangeEvent list \<Rightarrow> nat \<Rightarrow> db \<Rightarrow>
   db \<times> crawl_error option" where
  "crawl_posts_loop rt archive source numUpdates [] progress d = (d, None)"
| "crawl_posts_loop rt archive source numUpdates (changedPost # rest) progress d =
     (if type changedPost = ''del''
      then crawl_posts_loop rt archive source numUpdates rest (progress + 1)
             (checkpoint_progress rt archive source changedPost (progress + 1) numUpdates
                (emit (post_removed (archive_url archive))
                   (db_run (DELETE_crawl_posts (source_id source) (name changedPost)) d)))
      else case readFile archive (name changedPost) of
             None \<Rightarrow> (d, None)
           | Some postString \<Rightarrow>
               (case parse_post rt postString of
                  None \<Rightarrow> crawl_posts_loop rt archive source numUpdates rest progress d
                | Some post \<Rightarrow>
                    (case upsert_post rt archive source changedPost post d of
                       Inl err \<Rightarrow> (d, Some err)
                     | Inr d1 \<Rightarrow>
                         crawl_posts_loop rt archive source numUpdates rest (progress + 1)
                           (checkpoint_progress rt archive source changedPost (progress + 1) numUpdates d1))))"

text \<open>The handler that \<open>crawlSite\<close> gives to \<open>doCrawl\<close>, and \<open>crawlSite\<close>.\<close>

definition reset_posts :: "runtime \<Rightarrow> CrawlSourceRecord \<Rightarrow> db \<Rightarrow> db" where
  "reset_posts rt source d =
     doCheckpoint rt ''crawl_posts'' TABLE_VERSION source 0
       (db_run (DELETE_crawl_posts_of_source (source_id source)) d)"

definition posts_handler ::
  "runtime \<Rightarrow> InternalDatArchive \<Rightarrow> CrawlSourceRecord \<Rightarrow> handler_args \<Rightarrow> db \<Rightarrow> db \<times> crawl_error option" where
  "posts_handler rt archive source args d =
     (let d1 = (if resetRequired args then reset_posts rt source d else d);
          changedPosts = getMatchingChangesInOrder (changes args) JSON_PATH_REGEX;
          d2 = emitProgressEvent (archive_url archive) ''crawl_posts'' 0 (length changedPosts) d1
      in crawl_posts_loop rt archive source (length changedPosts) changedPosts 0 d2)"

definition crawlSite :: "runtime \<Rightarrow> InternalDatArchive \<Rightarrow> CrawlSourceRecord \<Rightarrow> db \<Rightarrow> db \<times> crawl_error option" where
  "crawlSite rt archive source d =
     doCrawl rt archive source ''crawl_posts'' TABLE_VERSION (posts_handler rt archive source) d"

text \<open>
  The source versions that the statements of a journal store for a dataset and source,
  oldest first.
\<close>

fun stored_versions :: "string \<Rightarrow> string \<Rightarrow> db_statement list \<Rightarrow> int list" where
  "stored_versions dataset sid [] = []"
| "stored_versions dataset sid (INSERT_crawl_sources_meta r # sts) =
     (if crawlDataset r = dataset \<and> crawlSourceId r = sid
      then crawlSourceVersion r # stored_versions dataset sid sts
      else stored_versions dataset sid sts)"
| "stored_versions dataset sid (st # sts) = stored_versions dataset sid sts"

text \<open>The row that a checkpoint of the posts crawler inserts.\<close>

definition checkpoint_row :: "runtime \<Rightarrow> CrawlSourceRecord \<Rightarrow> int \<Rightarrow> crawl_sources_meta_row" where
  "checkpoint_row rt source v =
     \<lparr>crawlDataset = ''crawl_posts'', crawlDatasetVersion = TABLE_VERSION,
      crawlSourceId = source_id source, crawlSourceVersion = v, updatedAt = Date_now rt\<rparr>"

section \<open>Sequences of crawl runs\<close>

text \<open>
  What the crawler expects of the archive in a run that starts from the stored state: the
  version of the archive is not behind the source version the run starts from, and the
  history of the window, when it can be read, is in the order of the versions and within
  the window.
\<close>

definition history_in_window :: "InternalDatArchive \<Rightarrow> crawl_sources_meta_row option \<Rightarrow> bool" where
  "history_in_window archive state =
     (let s0 = state_crawlSourceVersion state TABLE_VERSION; v = archive_version archive
      in s0 \<le> v \<and>
         (case history archive (s0 + 1) (v + 1) of
            None \<Rightarrow> True
          | Some cs \<Rightarrow> sorted (map version cs) \<and> (\<forall>c \<in> set cs. s0 < version c \<and> version c \<le> v)))"

fun crawl_runs :: "(runtime \<times> InternalDatArchive) list \<Rightarrow> CrawlSourceRecord \<Rightarrow> db \<Rightarrow> db" where
  "crawl_runs [] source d = d"
| "crawl_runs ((rt, archive) # runs) source d =
     crawl_runs runs source (fst (crawlSite rt archive source d))"

fun archive_contract :: "(runtime \<times> InternalDatArchive) list \<Rightarrow> CrawlSourceRecord \<Rightarrow> db \<Rightarrow> bool" where
  "archive_contract [] source d = True"
| "archive_contract ((rt, archive) # runs) source d =
     (history_in_window archive (get_crawl_state source ''crawl_posts'' d) \<and>
      archive_contract runs source (fst (crawlSite rt archive source d)))"

section \<open>A feed of three posts\<close>

text \<open>
  A source with three posts, added at the versions 1, 2 and 3 of its archive. The files
  that can be read are given as a list of names and contents; a file with the content
  \<open>{}\<close> does not validate as a post. The url of the archive is a \<open>dat://\<close> url, as
  the url of every archive is: \<open>new URL\<close> of Node parses it, and since \<open>dat:\<close> is not
  one of the special schemes its \<open>origin\<close> is the string \<open>null\<close>; its pathname is empty.
\<close>

definition feed_source :: CrawlSourceRecord where
  "feed_source = \<lparr>source_id = ''1'', source_url = ''dat://alice''\<rparr>"

definition feed_runtime :: runtime where
  "feed_runtime =
     \<lparr>Date_now = 1000,
      parse_post = (\<lambda>s. if s = ''{}'' then None
                         else Some \<lparr>content_body = s, createdAt_number = Some 5, updatedAt_number = None\<rparr>),
      URL_parse = (\<lambda>u. Some (''null'', []))\<rparr>"

definition feed_log :: "ChangeEvent list" where
  "feed_log =
     [\<lparr>name = ''/data/feed/a.json'', type = ''put'', version = 1\<rparr>,
      \<lparr>name = ''/data/feed/b.json'', type = ''put'', version = 2\<rparr>,
      \<lparr>name = ''/data/feed/c.json'', type = ''put'', version = 3\<rparr>]"

definition feed_archive :: "(string \<times> string) list \<Rightarrow> InternalDatArchive" where
  "feed_archive files =
     \<lparr>archive_url = ''dat://alice'', archiveInfo_version = Some 3,
      history = (\<lambda>s e. Some (filter (\<lambda>c. s \<le> version c \<and> version c < e) feed_log)),
      readFile = map_of files\<rparr>"

definition feed_db :: "crawl_sources_meta_row list \<Rightarrow> db" where
  "feed_db meta =
     \<lparr>crawl_sources = [feed_source], crawl_sources_meta = meta, crawl_posts = [],
      journal = [], emitted = []\<rparr>"

section \<open>Applying an entry twice\<close>

text \<open>
  The row that the upsert writes for an entry, and the entry applied in one run and again
  in a later one, with the clock of each run.
\<close>

definition post_row :: "runtime \<Rightarrow> CrawlSourceRecord \<Rightarrow> ChangeEvent \<Rightarrow> parsed_post \<Rightarrow> crawl_posts_row" where
  "post_row rt source c post =
     \<lparr>post_crawlSourceId = source_id source, post_pathname = name c,
      post_crawledAt = Date_now rt, post_body = content_body post,
      post_createdAt = createdAt_number post,
      post_updatedAt = (case updatedAt_number post of None \<Rightarrow> 0 | Some u \<Rightarrow> u)\<rparr>"

definition upsert_twice ::
  "runtime \<Rightarrow> runtime \<Rightarrow> InternalDatArchive \<Rightarrow> CrawlSourceRecord \<Rightarrow> ChangeEvent \<Rightarrow> parsed_post \<Rightarrow> db \<Rightarrow> crawl_error + db" where
  "upsert_twice rt1 rt2 archive source c post d =
     (case upsert_post rt1 archive source c post d of
        Inl err \<Rightarrow> Inl err
      | Inr d1 \<Rightarrow> upsert_post rt2 archive source c post d1)"

section \<open>Entries that are applied, and an index with rows to reset\<close>


text \<open>The pathnames of the posts that the table has for a source.\<close>

definition pathnames_of :: "string \<Rightarrow> db \<Rightarrow> string set" where
  "pathnames_of sid d = post_pathname ` {q \<in> set (crawl_posts d). post_crawlSourceId q = sid}"

text \<open>
  The feed with posts that an earlier crawl of another epoch has indexed: two posts of
  the source, one of them under a name that the feed no longer has, and a post of another
  source.
\<close>

definition feed_db_indexed :: "crawl_sources_meta_row list \<Rightarrow> db" where
  "feed_db_indexed meta =
     (feed_db meta)
       \<lparr>crawl_posts :=
          [\<lparr>post_crawlSourceId = ''1'', post_pathname = ''/data/feed/old.json'', post_crawledAt = 10,
            post_body = ''old'', post_createdAt = Some 1, post_updatedAt = 0\<rparr>,
           \<lparr>post_crawlSourceId = ''2'', post_pathname = ''/data/feed/a.json'', post_crawledAt = 11,
            post_body = ''of bob'', post_createdAt = Some 2, post_updatedAt = 0\<rparr>,
           \<lparr>post_crawlSourceId = ''1'', post_pathname = ''/data/feed/a.json'', post_crawledAt = 12,
            post_body = ''stale'', post_createdAt = Some 3, post_updatedAt = 0\<rparr>]\<rparr>"

section \<open>The search federator (search.js, the second file of src/unnamed/part_000)\<close>

text \<open>
  A JavaScript number as far as \<open>hops\<close> needs it: \<open>NaN\<close>, the two infinities and the
  finite values. \<open>ToNumber\<close> of a parameter that was left out (\<open>undefined\<close>) is \<open>NaN\<close>;
  \<open>Math.floor\<close>, \<open>Math.max\<close> and \<open>Math.min\<close> return \<open>NaN\<close> when an argument is
  \<open>NaN\<close>.
\<close>

datatype jsnumber = NaN | NegInfinity | Finite rat | PosInfinity

fun ToNumber :: "jsnumber option \<Rightarrow> jsnumber" where
  "ToNumber None = NaN"
| "ToNumber (Some n) = n"

fun Math_floor :: "jsnumber \<Rightarrow> jsnumber" where
  "Math_floor (Finite q) = Finite (of_int \<lfloor>q\<rfloor>)"
| "Math_floor n = n"

fun js_le :: "jsnumber \<Rightarrow> jsnumber \<Rightarrow> bool" where
  "js_le NaN b = False"
| "js_le a NaN = False"
| "js_le NegInfinity b = True"
| "js_le a PosInfinity = True"
| "js_le (Finite p) (Finite q) = (p \<le> q)"
| "js_le a b = False"

definition Math_max :: "jsnumber \<Rightarrow> jsnumber \<Rightarrow> jsnumber" where
  "Math_max a b = (if a = NaN \<or> b = NaN then NaN else if js_le a b then b else a)"

definition Math_min :: "jsnumber \<Rightarrow> jsnumber \<Rightarrow> jsnumber" where
  "Math_min a b = (if a = NaN \<or> b = NaN then NaN else if js_le a b then a else b)"

text \<open>Line 315: \<open>hops = Math.min(Math.max(Math.floor(hops), 1), 2)\<close>.\<close>

definition clamp_hops :: "jsnumber option \<Rightarrow> jsnumber" where
  "clamp_hops h = Math_min (Math_max (Math_floor (ToNumber h)) (Finite 1)) (Finite 2)"

text \<open>
  \<open>since || 0\<close>, \<open>offset || 0\<close> and \<open>limit || 20\<close> on whole numbers: the default is
  taken when the parameter was left out and when it is \<open>0\<close>.
\<close>

definition or_default :: "int option \<Rightarrow> int \<Rightarrow> int" where
  "or_default v dflt = (case v of None \<Rightarrow> dflt | Some n \<Rightarrow> if n = 0 then dflt else n)"

text \<open>
  \<open>array.slice(0, e)\<close>: a negative end counts from the end of the array.
\<close>

definition slice0 :: "'a list \<Rightarrow> int \<Rightarrow> 'a list" where
  "slice0 xs e = (if e < 0 then take (nat (int (length xs) + e)) xs else take (nat e) xs)"

text \<open>
  \<open>_uniqWith(rows, comparator)\<close> of lodash: a value is kept when no value kept before it
  compares equal to it. \<open>type.split(',')\<close>.
\<close>

definition uniqWith :: "'a list \<Rightarrow> ('a \<Rightarrow> 'a \<Rightarrow> bool) \<Rightarrow> 'a list" where
  "uniqWith array comparator =
     foldl (\<lambda>result v. if \<exists>seen \<in> set result. comparator v seen then result else result @ [v]) [] array"

definition split_commas :: "string \<Rightarrow> string list" where
  "split_commas s =
     foldr (\<lambda>ch acc. if ch = CHR '','' then [] # acc else (ch # hd acc) # tl acc) s [[]]"

text \<open>
  Modelled from the spec: the module \<open>site-descriptions\<close> and its type
  \<open>SiteDescription\<close> are not part of these sources. The spec gives every search result a
  ranking timestamp \<open>crawledAt\<close>, so the description of a site carries one, a number.
\<close>

record SiteDescription =
  sd_url :: string
  sd_title :: string
  sd_description :: string
  sd_type :: "string list"
  sd_thumbUrl :: string
  sd_descAuthor :: string
  sd_crawledAt :: int

text \<open>
  A row of one of the three search queries, with the columns that the queries select,
  and the three kinds of results. A title or description that is not there, or empty, is
  \<open>None\<close>.
\<close>

record search_row =
  row_url :: string
  row_authorUrl :: string
  row_crawledAt :: int
  row_title :: "string option"
  row_description :: "string option"
  row_type :: string
  row_pathname :: string
  row_createdAt :: int
  row_updatedAt :: int

record UserSearchResult =
  user_url :: string
  user_title :: "string option"
  user_description :: "string option"
  user_crawledAt :: int
  user_followedBy :: "SiteDescription list"
  user_followsUser :: bool
  user_thumbUrl :: string
  user_author :: string

record PostSearchResult =
  post_url :: string
  post_author :: "SiteDescription option"
  content_url :: string
  content_title :: "string option"
  content_description :: "string option"
  content_type :: "string list"
  crawledAt :: int
  createdAt :: int
  updatedAt' :: int

record SiteSearchResult =
  site :: SiteDescription
  site_title :: string
  site_description :: string
  site_author :: "SiteDescription option"

datatype SearchResult =
    User_result UserSearchResult
  | Post_result PostSearchResult
  | Site_result SiteSearchResult

fun resultType :: "SearchResult \<Rightarrow> string" where
  "resultType (User_result r) = ''user''"
| "resultType (Post_result r) = ''post''"
| "resultType (Site_result r) = ''site''"

fun result_crawledAt :: "SearchResult \<Rightarrow> int" where
  "result_crawledAt (User_result r) = user_crawledAt r"
| "result_crawledAt (Post_result r) = crawledAt r"
| "result_crawledAt (Site_result r) = sd_crawledAt (site r)"

record crawl_followgraph_row =
  fg_crawlSourceId :: string
  fg_destUrl :: string

text \<open>
  The options of a search, and what the three query builders receive. The two highlight
  markers are made of the nonce and are given by it.
\<close>

record search_opts =
  user :: string
  query :: "string option"
  hops :: "jsnumber option"
  datasets :: "string list option"
  siteTypes :: "string list option"
  since :: "int option"
  offset :: "int option"
  limit :: "int option"

record search_query =
  q_query :: "string option"
  q_crawlSourceIds :: "string list option"
  q_user :: string
  q_userCrawlSourceId :: string
  q_siteTypes :: "string list option"
  q_since :: int
  q_limit :: int
  q_offset :: int
  q_highlightNonce :: nat

text \<open>
  The index as the search reads it. The tables \<open>crawl_sources\<close> and \<open>crawl_followgraph\<close>
  are read by the two statements that are written out in \<open>listSearchResults\<close>; the rows of
  the three queries that knex builds are what the storage engine returns for them. The
  follow graph, the best description of a site and the hostname of a url (\<open>None\<close> when
  \<open>new URL\<close> throws) are collaborators.
\<close>

record search_index =
  idx_crawl_sources :: "CrawlSourceRecord list"
  idx_crawl_followgraph :: "crawl_followgraph_row list"
  followgraph_rows :: "search_query \<Rightarrow> search_row list"
  link_posts_rows :: "search_query \<Rightarrow> search_row list"
  published_sites_rows :: "search_query \<Rightarrow> search_row list"
  listFollowers :: "string \<Rightarrow> SiteDescription list"
  isAFollowingB :: "string \<Rightarrow> string \<Rightarrow> bool"
  getBest :: "string \<Rightarrow> string option \<Rightarrow> SiteDescription option"
  toHostname :: "string \<Rightarrow> string option"

text \<open>Lines 320 to 325: the query is prepared when it is a string that is not empty.\<close>

definition prep_query :: "string option \<Rightarrow> string option" where
  "prep_query q =
     (case q of
        None \<Rightarrow> None
      | Some s \<Rightarrow>
          if s = [] then Some s
          else Some (map (\<lambda>ch. if ch \<in> set '':^*.'' then CHR '' '' else ch) (toLowerCase s) @ ''*''))"

text \<open>
  Lines 334 to 346: the sources to query. Nothing is assigned when \<open>hops\<close> is neither
  \<open>2\<close> nor \<open>1\<close>, and \<open>crawlSourceIds\<close> stays \<open>undefined\<close> (\<open>None\<close>).
\<close>

definition followed_source_ids :: "search_index \<Rightarrow> string \<Rightarrow> string list" where
  "followed_source_ids idx userCrawlSourceId =
     concat (map (\<lambda>src. map (\<lambda>edge. source_id src)
                          (filter (\<lambda>edge. fg_destUrl edge = source_url src \<and>
                                           fg_crawlSourceId edge = userCrawlSourceId)
                                  (idx_crawl_followgraph idx)))
                 (idx_crawl_sources idx))"

definition crawlSourceIds_for :: "search_index \<Rightarrow> string \<Rightarrow> jsnumber \<Rightarrow> string list option" where
  "crawlSourceIds_for idx userCrawlSourceId h =
     (if h = Finite 2 then Some ([userCrawlSourceId] @ followed_source_ids idx userCrawlSourceId)
      else if h = Finite 1 then Some [userCrawlSourceId]
      else None)"

text \<open>\<open>getSiteDescriptionThumbnailUrl\<close> of util.js.\<close>

definition getSiteDescriptionThumbnailUrl :: "search_index \<Rightarrow> string \<Rightarrow> string \<Rightarrow> string option" where
  "getSiteDescriptionThumbnailUrl idx author subject =
     (if author = subject then Some (subject @ ''/thumb'')
      else case toHostname idx subject of
             None \<Rightarrow> None
           | Some hostname \<Rightarrow> Some (author @ ''/data/known_sites/'' @ hostname @ ''/thumb''))"

text \<open>
  The results of the three datasets; \<open>None\<close> when shaping a row throws.
\<close>

definition followgraph_results :: "search_index \<Rightarrow> search_query \<Rightarrow> SearchResult list option" where
  "followgraph_results idx q =
     those (map (\<lambda>p. case getSiteDescriptionThumbnailUrl idx (row_authorUrl p) (row_url p) of
                       None \<Rightarrow> None
                     | Some thumb \<Rightarrow>
                         Some (User_result
                           \<lparr>user_url = row_url p, user_title = row_title p,
                            user_description = row_description p, user_crawledAt = row_crawledAt p,
                            user_followedBy = listFollowers idx (row_url p),
                            user_followsUser = isAFollowingB idx (row_url p) (q_user q),
                            user_thumbUrl = thumb, user_author = row_authorUrl p\<rparr>))
                (uniqWith (followgraph_rows idx q) (\<lambda>a b. row_url a = row_url b)))"

definition link_posts_results :: "search_index \<Rightarrow> search_query \<Rightarrow> SearchResult list option" where
  "link_posts_results idx q =
     Some (map (\<lambda>p. Post_result
                  \<lparr>post_url = row_authorUrl p @ row_pathname p,
                   post_author = getBest idx (row_authorUrl p) None,
                   content_url = row_url p, content_title = row_title p,
                   content_description = row_description p,
                   content_type = split_commas (row_type p),
                   crawledAt = row_crawledAt p, createdAt = row_createdAt p,
                   updatedAt' = row_updatedAt p\<rparr>)
               (link_posts_rows idx q))"

definition published_sites_results :: "search_index \<Rightarrow> search_query \<Rightarrow> SearchResult list option" where
  "published_sites_results idx q =
     those (map (\<lambda>row. case getBest idx (row_url row) (Some (row_authorUrl row)) of
                         None \<Rightarrow> None
                       | Some result \<Rightarrow>
                           Some (Site_result
                             \<lparr>site = result,
                              site_title = (case row_title row of None \<Rightarrow> sd_title result | Some t \<Rightarrow> t),
                              site_description =
                                (case row_description row of None \<Rightarrow> sd_description result | Some t \<Rightarrow> t),
                              site_author = getBest idx (row_authorUrl row) None\<rparr>))
                (uniqWith (published_sites_rows idx q) (\<lambda>a b. row_url a = row_url b)))"

definition wanted :: "string list option \<Rightarrow> string \<Rightarrow> bool" where
  "wanted ds dataset = (case ds of None \<Rightarrow> True | Some l \<Rightarrow> dataset \<in> set l)"

text \<open>
  The query that the three builders receive (lines 311 to 346); \<open>None\<close> when the user is
  not in \<open>crawl_sources\<close> and reading \<open>res.id\<close> throws.
\<close>

definition search_query_of :: "search_index \<Rightarrow> nat \<Rightarrow> search_opts \<Rightarrow> search_query option" where
  "search_query_of idx highlightNonce opts =
     (case find (\<lambda>src. source_url src = user opts) (idx_crawl_sources idx) of
        None \<Rightarrow> None
      | Some res \<Rightarrow>
          Some \<lparr>q_query = prep_query (query opts),
                q_crawlSourceIds = crawlSourceIds_for idx (source_id res) (clamp_hops (hops opts)),
                q_user = user opts, q_userCrawlSourceId = source_id res,
                q_siteTypes = siteTypes opts,
                q_since = or_default (since opts) 0,
                q_limit = or_default (limit opts) 20,
                q_offset = or_default (offset opts) 0,
                q_highlightNonce = highlightNonce\<rparr>)"

text \<open>
  Lines 348 to 436: the results of the datasets that were asked for, one after the other.
\<close>

definition search_candidates :: "search_index \<Rightarrow> search_opts \<Rightarrow> search_query \<Rightarrow> SearchResult list option" where
  "search_candidates idx opts q =
     (case (if wanted (datasets opts) ''followgraph'' then followgraph_results idx q else Some []) of
        None \<Rightarrow> None
      | Some users \<Rightarrow>
          (case (if wanted (datasets opts) ''link_posts'' then link_posts_results idx q else Some []) of
             None \<Rightarrow> None
           | Some posts \<Rightarrow>
               (case (if wanted (datasets opts) ''published_sites''
                      then published_sites_results idx q else Some []) of
                  None \<Rightarrow> None
                | Some sites \<Rightarrow> Some (users @ posts @ sites))))"

text \<open>
  Lines 438 to 442. \<open>Array.prototype.sort\<close> with the comparator
  \<open>(a, b) => b.crawledAt - a.crawledAt\<close> is a stable sort on the negated \<open>crawledAt\<close>.
\<close>

definition sort_and_limit :: "SearchResult list \<Rightarrow> int \<Rightarrow> SearchResult list" where
  "sort_and_limit found n = slice0 (sort_key (\<lambda>r. - result_crawledAt r) found) n"

record SearchResults =
  highlightNonce :: nat
  results :: "SearchResult list"

definition listSearchResults :: "search_index \<Rightarrow> nat \<Rightarrow> search_opts \<Rightarrow> SearchResults option" where
  "listSearchResults idx nonce opts =
     (case search_query_of idx nonce opts of
        None \<Rightarrow> None
      | Some q \<Rightarrow>
          (case search_candidates idx opts q of
             None \<Rightarrow> None
           | Some found \<Rightarrow>
               Some \<lparr>highlightNonce = nonce, results = sort_and_limit found (q_limit q)\<rparr>))"

section \<open>The suggestions (search.js, the second file of src/unnamed/part_000)\<close>

text \<open>
  What \<open>listSuggestions\<close> reads: a built-in page, a saved archive of the library, a
  bookmark and an entry of the history; the library, the bookmarks and the history search
  are collaborators, and so is \<open>getBasicType\<close>.
\<close>

record page =
  page_title :: string
  page_url :: string

record LibraryArchiveRecord =
  lib_url :: string
  lib_title :: string
  lib_type :: "string list"

record Bookmark =
  href :: string
  bookmark_title :: string
  pinned :: bool

record visit =
  visit_url :: string
  visit_title :: string

record suggestion_sources =
  queryArchives_saved :: "LibraryArchiveRecord list"
  getBasicType :: "string list \<Rightarrow> string"
  listBookmarks :: "Bookmark list"
  history_search :: "string \<Rightarrow> visit list"

record SuggestionResults =
  apps :: "page list"
  people :: "LibraryArchiveRecord list option"
  webPages :: "LibraryArchiveRecord list option"
  fileShares :: "LibraryArchiveRecord list option"
  imageCollections :: "LibraryArchiveRecord list option"
  others :: "LibraryArchiveRecord list option"
  bookmarks :: "page list option"
  history' :: "visit list option"

definition BUILTIN_PAGES :: "page list" where
  "BUILTIN_PAGES =
     [\<lparr>page_title = ''Your Library'', page_url = ''beaker://library''\<rparr>,
      \<lparr>page_title = ''Search'', page_url = ''beaker://search''\<rparr>,
      \<lparr>page_title = ''Bookmarks'', page_url = ''beaker://bookmarks''\<rparr>,
      \<lparr>page_title = ''History'', page_url = ''beaker://history''\<rparr>,
      \<lparr>page_title = ''Watchlist'', page_url = ''beaker://watchlist''\<rparr>,
      \<lparr>page_title = ''Downloads'', page_url = ''beaker://downloads''\<rparr>,
      \<lparr>page_title = ''Settings'', page_url = ''beaker://settings''\<rparr>]"

text \<open>
  \<open>filterFn\<close>, on the value of \<open>a.url || a.href\<close> and the title; \<open>includes\<close> is
  \<open>sublist\<close>.
\<close>

definition filterFn :: "string \<Rightarrow> string \<Rightarrow> string \<Rightarrow> bool" where
  "filterFn q url_or_href title = (sublist q url_or_href \<or> sublist q (toLowerCase title))"

text \<open>A group of \<open>_groupBy\<close>: \<open>undefined\<close> (\<open>None\<close>) when no element has the key.\<close>

definition group_of :: "suggestion_sources \<Rightarrow> LibraryArchiveRecord list \<Rightarrow> string \<Rightarrow> LibraryArchiveRecord list option" where
  "group_of src libraryResults k =
     (let g = filter (\<lambda>a. getBasicType src (lib_type a) = k) libraryResults
      in if g = [] then None else Some g)"

definition listSuggestions :: "suggestion_sources \<Rightarrow> string option \<Rightarrow> bool \<Rightarrow> SuggestionResults" where
  "listSuggestions src query_arg filterPins =
     (let q = (case query_arg of None \<Rightarrow> [] | Some s \<Rightarrow> s);
          libraryResults = filter (\<lambda>a. filterFn q (lib_url a) (lib_title a)) (queryArchives_saved src);
          bookmarkResults =
            (if filterPins
             then filter (\<lambda>b. \<not> pinned b \<and> filterFn q (href b) (bookmark_title b)) (listBookmarks src)
             else filter (\<lambda>b. filterFn q (href b) (bookmark_title b)) (listBookmarks src))
      in \<lparr>apps = filter (\<lambda>a. filterFn q (page_url a) (page_title a)) BUILTIN_PAGES,
          people = group_of src libraryResults ''user'',
          webPages = group_of src libraryResults ''web-page'',
          fileShares = group_of src libraryResults ''file-share'',
          imageCollections = group_of src libraryResults ''image-collection'',
          others = group_of src libraryResults ''other'',
          bookmarks =
            (if q \<noteq> []
             then Some (map (\<lambda>b. \<lparr>page_title = bookmark_title b, page_url = href b\<rparr>)
                          (take 12 bookmarkResults))
             else None),
          history' =
            (if q \<noteq> []
             then Some (sort_key (\<lambda>h. length (visit_url h)) (take 12 (history_search src q)))
             else None)\<rparr>)"

section \<open>A small index to search\<close>

text \<open>
  Alice follows Bob; the link posts query returns three posts, crawled at 5, 9 and 7.
\<close>

definition search_fixture_posts :: "search_row list" where
  "search_fixture_posts =
     [\<lparr>row_url = ''https://a.example'', row_authorUrl = ''dat://bob'', row_crawledAt = 5,
       row_title = Some ''A'', row_description = None, row_type = ''blog,news'',
       row_pathname = ''/data/link_posts/1.json'', row_createdAt = 1, row_updatedAt = 0\<rparr>,
      \<lparr>row_url = ''https://b.example'', row_authorUrl = ''dat://bob'', row_crawledAt = 9,
       row_title = Some ''B'', row_description = None, row_type = ''blog'',
       row_pathname = ''/data/link_posts/2.json'', row_createdAt = 2, row_updatedAt = 0\<rparr>,
      \<lparr>row_url = ''https://c.example'', row_authorUrl = ''dat://alice'', row_crawledAt = 7,
       row_title = Some ''C'', row_description = None, row_type = ''blog'',
       row_pathname = ''/data/link_posts/3.json'', row_createdAt = 3, row_updatedAt = 0\<rparr>]"

definition search_fixture_index :: search_index where
  "search_fixture_index =
     \<lparr>idx_crawl_sources = [\<lparr>source_id = ''1'', source_url = ''dat://alice''\<rparr>,
                           \<lparr>source_id = ''2'', source_url = ''dat://bob''\<rparr>],
      idx_crawl_followgraph = [\<lparr>fg_crawlSourceId = ''1'', fg_destUrl = ''dat://bob''\<rparr>],
      followgraph_rows = (\<lambda>q. []),
      link_posts_rows = (\<lambda>q. search_fixture_posts),
      published_sites_rows = (\<lambda>q. []),
      listFollowers = (\<lambda>u. []),
      isAFollowingB = (\<lambda>a b. False),
      getBest = (\<lambda>subject author. None),
      toHostname = (\<lambda>u. Some u)\<rparr>"

definition search_fixture_opts :: search_opts where
  "search_fixture_opts =
     \<lparr>user = ''dat://alice'', query = None, hops = Some (Finite 2), datasets = None,
      siteTypes = None, since = None, offset = None, limit = Some 2\<rparr>"

definition search_fixture_query :: search_query where
  "search_fixture_query =
     \<lparr>q_query = None, q_crawlSourceIds = Some [''1'', ''2''], q_user = ''dat://alice'',
      q_userCrawlSourceId = ''1'', q_siteTypes = None, q_since = 0, q_limit = 2, q_offset = 0,
      q_highlightNonce = 7\<rparr>"

definition suggestion_fixture :: suggestion_sources where
  "suggestion_fixture =
     \<lparr>queryArchives_saved = [],
      getBasicType = (\<lambda>t. ''other''),
      listBookmarks = replicate 13 \<lparr>href = ''https://beakerbrowser.com'', bookmark_title = ''Beaker'', pinned = False\<rparr>,
      history_search = (\<lambda>q. replicate 13 \<lparr>visit_url = ''https://beakerbrowser.com/docs'', visit_title = ''Docs''\<rparr>)\<rparr>"

section \<open>Properties of the change-set resolver\<close>

text \<open>
  \<open>findIndex\<close> and \<open>splice\<close> remove the first event with the name; the list that the
  loop builds never has two events with one name, so that this removes every event with
  the name. With that, the loop is \<open>latest_matching\<close>.
\<close>

lemma findIndex_from_takeWhile:
  "findIndex_from p xs i =
     (if \<exists>x \<in> set xs. p x then i + int (length (takeWhile (\<lambda>x. \<not> p x) xs)) else - 1)"
  by (induction xs arbitrary: i) auto

lemma splice1_takeWhile:
  "\<exists>x \<in> set xs. p x \<Longrightarrow>
     splice1 xs (int (length (takeWhile (\<lambda>x. \<not> p x) xs))) =
       takeWhile (\<lambda>x. \<not> p x) xs @ tl (dropWhile (\<lambda>x. \<not> p x) xs)"
  unfolding splice1_def
  by (induction xs) (auto simp: drop_Cons')

lemma remove_first_distinct:
  "distinct (map f xs) \<Longrightarrow>
     takeWhile (\<lambda>x. f x \<noteq> k) xs @ tl (dropWhile (\<lambda>x. f x \<noteq> k) xs) = filter (\<lambda>x. f x \<noteq> k) xs"
proof (induction xs)
  case Nil
  then show ?case by simp
next
  case (Cons x xs)
  show ?case
  proof (cases "f x = k")
    case True
    with Cons.prems have "k \<notin> f ` set xs" by simp
    then have "\<forall>y \<in> set xs. f y \<noteq> k" by blast
    then have "filter (\<lambda>x. f x \<noteq> k) xs = xs" by (simp add: filter_id_conv)
    with True show ?thesis by simp
  next
    case False
    with Cons show ?thesis by simp
  qed
qed

lemma matching_step_filter:
  assumes "distinct (map name list)"
  shows "matching_step regex list c =
           (if regex (name c) then filter (\<lambda>x. name x \<noteq> name c) list @ [c] else list)"
proof (cases "\<exists>x \<in> set list. name x = name c")
  case True
  then have ex: "\<exists>x \<in> set list. \<not> name x \<noteq> name c" by simp
  have fi: "findIndex (\<lambda>c2. name c2 = name c) list = int (length (takeWhile (\<lambda>x. name x \<noteq> name c) list))"
    using True by (simp add: findIndex_def findIndex_from_takeWhile)
  have "splice1 list (findIndex (\<lambda>c2. name c2 = name c) list) = filter (\<lambda>x. name x \<noteq> name c) list"
    using splice1_takeWhile [of list "\<lambda>x. name x = name c"] True remove_first_distinct [OF assms, of "name c"]
    by (simp add: fi)
  then show ?thesis
    by (simp add: matching_step_def Let_def fi)
next
  case False
  then have "findIndex (\<lambda>c2. name c2 = name c) list = - 1"
    by (simp add: findIndex_def findIndex_from_takeWhile)
  moreover from False have "filter (\<lambda>x. name x \<noteq> name c) list = list"
    by (auto simp: filter_id_conv)
  ultimately show ?thesis
    by (simp add: matching_step_def)
qed

lemma set_latest_matching:
  "set (latest_matching regex cs) \<subseteq> set cs"
  by (induction cs) auto

lemma names_latest_matching:
  "name ` set (latest_matching regex cs) = {n \<in> name ` set cs. regex n}"
  by (induction cs) auto

lemma distinct_latest_matching:
  "distinct (map name (latest_matching regex cs))"
proof (induction cs)
  case Nil
  then show ?case by simp
next
  case (Cons c cs)
  have "name c \<notin> name ` set cs \<Longrightarrow> name c \<notin> name ` set (latest_matching regex cs)"
    using set_latest_matching [of regex cs] by auto
  with Cons show ?case by simp
qed

lemma latest_matching_snoc:
  "latest_matching regex (cs @ [c]) =
     (if regex (name c) then filter (\<lambda>x. name x \<noteq> name c) (latest_matching regex cs) @ [c]
      else latest_matching regex cs)"
proof (induction cs)
  case Nil
  then show ?case by simp
next
  case (Cons d ds)
  show ?case
  proof (cases "regex (name c)")
    case True
    with Cons show ?thesis by auto
  next
    case False
    with Cons show ?thesis by auto
  qed
qed

lemma getMatchingChangesInOrder_latest:
  "getMatchingChangesInOrder xs regex = latest_matching regex xs"
proof (induction xs rule: rev_induct)
  case Nil
  then show ?case by (simp add: getMatchingChangesInOrder_def)
next
  case (snoc c cs)
  have "getMatchingChangesInOrder (cs @ [c]) regex = matching_step regex (latest_matching regex cs) c"
    using snoc by (simp add: getMatchingChangesInOrder_def)
  then show ?case
    by (simp add: matching_step_filter [OF distinct_latest_matching] latest_matching_snoc)
qed

lemma subseq_latest_matching:
  "subseq (latest_matching regex cs) cs"
  by (induction cs) auto

lemma latest_pos_correct:
  "n \<in> name ` set cs \<Longrightarrow>
     latest_pos n cs < length cs \<and> name (cs ! latest_pos n cs) = n \<and>
     (\<forall>j. latest_pos n cs < j \<and> j < length cs \<longrightarrow> name (cs ! j) \<noteq> n)"
proof (induction cs)
  case Nil
  then show ?case by simp
next
  case (Cons c cs)
  show ?case
  proof (cases "n \<in> name ` set cs")
    case True
    with Cons.IH have ih: "latest_pos n cs < length cs" "name (cs ! latest_pos n cs) = n"
      "\<And>j. latest_pos n cs < j \<Longrightarrow> j < length cs \<Longrightarrow> name (cs ! j) \<noteq> n" by auto
    have later: "name ((c # cs) ! j) \<noteq> n"
      if a: "Suc (latest_pos n cs) < j" "j < Suc (length cs)" for j
    proof -
      from a obtain k where k: "j = Suc k" by (cases j) auto
      with a ih(3) [of k] show ?thesis by simp
    qed
    have lp: "latest_pos n (c # cs) = Suc (latest_pos n cs)" using True by simp
    show ?thesis unfolding lp using ih(1,2) later by auto
  next
    case False
    with Cons.prems have nc: "name c = n" by auto
    have later: "name ((c # cs) ! j) \<noteq> n" if a: "0 < j" "j < Suc (length cs)" for j
    proof -
      from a obtain k where k: "j = Suc k" by (cases j) auto
      with a have "cs ! k \<in> set cs" by simp
      with False k show ?thesis by auto
    qed
    have lp: "latest_pos n (c # cs) = 0" using False by simp
    show ?thesis unfolding lp using nc later by auto
  qed
qed

lemma latest_matching_at_latest_pos:
  "e \<in> set (latest_matching regex cs) \<Longrightarrow> e = cs ! latest_pos (name e) cs"
proof (induction cs)
  case Nil
  then show ?case by simp
next
  case (Cons c cs)
  show ?case
  proof (cases "e \<in> set (latest_matching regex cs)")
    case True
    then have "name e \<in> name ` set cs" using set_latest_matching [of regex cs] by auto
    with True Cons.IH show ?thesis by simp
  next
    case False
    with Cons.prems have "e = c" "name c \<notin> name ` set cs" by (auto split: if_splits)
    then show ?thesis by simp
  qed
qed

lemma sorted_latest_matching:
  "sorted_wrt (\<lambda>a b. latest_pos (name a) cs < latest_pos (name b) cs) (latest_matching regex cs)"
proof (induction cs)
  case Nil
  then show ?case by simp
next
  case (Cons c cs)
  have in_cs: "\<And>e. e \<in> set (latest_matching regex cs) \<Longrightarrow> name e \<in> name ` set cs"
    using set_latest_matching [of regex cs] by auto
  have lift: "sorted_wrt (\<lambda>a b. latest_pos (name a) (c # cs) < latest_pos (name b) (c # cs)) (latest_matching regex cs)"
    using Cons.IH in_cs
    by (auto simp: sorted_wrt_iff_nth_less)
  show ?case
  proof (cases "regex (name c) \<and> name c \<notin> name ` set cs")
    case True
    then show ?thesis using lift in_cs by auto
  next
    case False
    then show ?thesis using lift by auto
  qed
qed

text \<open>
  Claim C3. For every list of change events and every name pattern, the output of
  \<open>getMatchingChangesInOrder\<close> is a subsequence of the input with at most one event for
  a name; the names of the output are the names of the input that match the pattern;
  every event of the output is the latest occurrence of its name in the input (it stands
  at \<open>latest_pos\<close>, and no later event of the input has its name); and the events of the
  output stand in the order of these latest occurrences.
\<close>

theorem getMatchingChangesInOrder_resolves:
  "subseq (getMatchingChangesInOrder cs regex) cs \<and>
   distinct (map name (getMatchingChangesInOrder cs regex)) \<and>
   set (map name (getMatchingChangesInOrder cs regex)) = {n \<in> set (map name cs). regex n} \<and>
   (\<forall>e \<in> set (getMatchingChangesInOrder cs regex).
      latest_pos (name e) cs < length cs \<and> e = cs ! latest_pos (name e) cs \<and>
      (\<forall>j. latest_pos (name e) cs < j \<and> j < length cs \<longrightarrow> name (cs ! j) \<noteq> name e)) \<and>
   sorted_wrt (\<lambda>a b. latest_pos (name a) cs < latest_pos (name b) cs)
     (getMatchingChangesInOrder cs regex)"
proof -
  have latest: "latest_pos (name e) cs < length cs \<and> e = cs ! latest_pos (name e) cs \<and>
      (\<forall>j. latest_pos (name e) cs < j \<and> j < length cs \<longrightarrow> name (cs ! j) \<noteq> name e)"
    if e: "e \<in> set (latest_matching regex cs)" for e
  proof -
    from e have "name e \<in> name ` set cs" using set_latest_matching [of regex cs] by auto
    from latest_pos_correct [OF this] latest_matching_at_latest_pos [OF e]
    show ?thesis by simp
  qed
  have names: "set (map name (latest_matching regex cs)) = {n \<in> set (map name cs). regex n}"
    using names_latest_matching [of regex cs] by simp
  show ?thesis
    unfolding getMatchingChangesInOrder_latest
    using subseq_latest_matching [of regex cs] distinct_latest_matching [of regex cs]
      names sorted_latest_matching [of cs regex] latest
    by blast
qed

theorem getMatchingChangesInOrder_resolves_witness:
  "getMatchingChangesInOrder
     [\<lparr>name = ''/data/feed/a.json'', type = ''add'', version = 1\<rparr>,
      \<lparr>name = ''/data/feed/b.json'', type = ''add'', version = 2\<rparr>,
      \<lparr>name = ''/index.html'', type = ''change'', version = 3\<rparr>,
      \<lparr>name = ''/data/feed/a.json'', type = ''change'', version = 4\<rparr>] JSON_PATH_REGEX =
     [\<lparr>name = ''/data/feed/b.json'', type = ''add'', version = 2\<rparr>,
      \<lparr>name = ''/data/feed/a.json'', type = ''change'', version = 4\<rparr>] \<and>
   subseq
     [\<lparr>name = ''/data/feed/b.json'', type = ''add'', version = 2\<rparr>,
      \<lparr>name = ''/data/feed/a.json'', type = ''change'', version = 4\<rparr>]
     [\<lparr>name = ''/data/feed/a.json'', type = ''add'', version = 1\<rparr>,
      \<lparr>name = ''/data/feed/b.json'', type = ''add'', version = 2\<rparr>,
      \<lparr>name = ''/index.html'', type = ''change'', version = 3\<rparr>,
      \<lparr>name = ''/data/feed/a.json'', type = ''change'', version = 4\<rparr>] \<and>
   sorted_wrt
     (\<lambda>a b. latest_pos (name a)
               [\<lparr>name = ''/data/feed/a.json'', type = ''add'', version = 1\<rparr>,
                \<lparr>name = ''/data/feed/b.json'', type = ''add'', version = 2\<rparr>,
                \<lparr>name = ''/index.html'', type = ''change'', version = 3\<rparr>,
                \<lparr>name = ''/data/feed/a.json'', type = ''change'', version = 4\<rparr>]
           < latest_pos (name b)
               [\<lparr>name = ''/data/feed/a.json'', type = ''add'', version = 1\<rparr>,
                \<lparr>name = ''/data/feed/b.json'', type = ''add'', version = 2\<rparr>,
                \<lparr>name = ''/index.html'', type = ''change'', version = 3\<rparr>,
                \<lparr>name = ''/data/feed/a.json'', type = ''change'', version = 4\<rparr>])
     [\<lparr>name = ''/data/feed/b.json'', type = ''add'', version = 2\<rparr>,
      \<lparr>name = ''/data/feed/a.json'', type = ''change'', version = 4\<rparr>]"
proof -
  have run: "getMatchingChangesInOrder
     [\<lparr>name = ''/data/feed/a.json'', type = ''add'', version = 1\<rparr>,
      \<lparr>name = ''/data/feed/b.json'', type = ''add'', version = 2\<rparr>,
      \<lparr>name = ''/index.html'', type = ''change'', version = 3\<rparr>,
      \<lparr>name = ''/data/feed/a.json'', type = ''change'', version = 4\<rparr>] JSON_PATH_REGEX =
     [\<lparr>name = ''/data/feed/b.json'', type = ''add'', version = 2\<rparr>,
      \<lparr>name = ''/data/feed/a.json'', type = ''change'', version = 4\<rparr>]"
    by (simp add: getMatchingChangesInOrder_def matching_step_def JSON_PATH_REGEX_def
        toLowerCase_def toLowerCase_char_def findIndex_def splice1_def Let_def)
  show ?thesis
    using getMatchingChangesInOrder_resolves
      [of "[\<lparr>name = ''/data/feed/a.json'', type = ''add'', version = 1\<rparr>,
            \<lparr>name = ''/data/feed/b.json'', type = ''add'', version = 2\<rparr>,
            \<lparr>name = ''/index.html'', type = ''change'', version = 3\<rparr>,
            \<lparr>name = ''/data/feed/a.json'', type = ''change'', version = 4\<rparr>]" JSON_PATH_REGEX]
    unfolding run by blast
qed

section \<open>Checkpoints of a crawl\<close>

text \<open>
  What a checkpoint writes into the journal and into \<open>crawl_sources_meta\<close>, and from
  there the source versions that the loop, the handler and a run of \<open>crawlSite\<close> store:
  a subsequence of the versions of the changes, after the 0 of a reset, and before the
  version of the archive when the handler returns.
\<close>

lemma stored_versions_append:
  "stored_versions ds sid (xs @ ys) = stored_versions ds sid xs @ stored_versions ds sid ys"
  by (induction ds sid xs rule: stored_versions.induct) auto

lemma journal_db_run [simp]: "journal (db_run st d) = journal d @ [st]"
  by (simp add: db_run_def)

lemma journal_emit [simp]: "journal (emit e d) = journal d"
  by (simp add: emit_def)

lemma journal_doCheckpoint:
  "journal (doCheckpoint rt ds dv source v d) =
     journal d @ [DELETE_crawl_sources_meta ds (source_id source),
                  INSERT_crawl_sources_meta \<lparr>crawlDataset = ds, crawlDatasetVersion = dv,
                    crawlSourceId = source_id source, crawlSourceVersion = v, updatedAt = Date_now rt\<rparr>]"
  by (simp add: doCheckpoint_def)

lemma stored_versions_doCheckpoint:
  "stored_versions ds (source_id source) (journal (doCheckpoint rt ds dv source v d)) =
     stored_versions ds (source_id source) (journal d) @ [v]"
  by (simp add: journal_doCheckpoint stored_versions_append)

lemma find_filter_snoc:
  "crawlSourceId r = sid \<Longrightarrow> crawlDataset r = ds \<Longrightarrow>
   find (\<lambda>r. crawlSourceId r = sid \<and> crawlDataset r = ds)
     (filter (\<lambda>r. crawlDataset r = ds \<longrightarrow> crawlSourceId r \<noteq> sid) xs @ [r]) = Some r"
  by (induction xs) auto

lemma crawl_sources_meta_db_run:
  "crawl_sources_meta (db_run st d) = crawl_sources_meta (apply_statement st d)"
  by (simp add: db_run_def)

lemma get_crawl_state_doCheckpoint:
  "get_crawl_state source ds (doCheckpoint rt ds dv source v d) =
     Some \<lparr>crawlDataset = ds, crawlDatasetVersion = dv,
           crawlSourceId = source_id source, crawlSourceVersion = v, updatedAt = Date_now rt\<rparr>"
  unfolding get_crawl_state_def doCheckpoint_def
  by (simp add: crawl_sources_meta_db_run find_filter_snoc)

lemma get_crawl_state_emit [simp]:
  "get_crawl_state source ds (emit e d) = get_crawl_state source ds d"
  by (simp add: get_crawl_state_def emit_def)



lemma stored_versions_upsert_post:
  "upsert_post rt archive source c post d = Inr d1 \<Longrightarrow>
     stored_versions ds sid (journal d1) = stored_versions ds sid (journal d)"
  by (auto simp: upsert_post_def Let_def stored_versions_append
      split: sum.splits option.splits)

lemma stored_versions_checkpoint_progress:
  "stored_versions ''crawl_posts'' (source_id source)
     (journal (checkpoint_progress rt archive source c p n d)) =
   stored_versions ''crawl_posts'' (source_id source) (journal d) @ [version c]"
  by (simp add: checkpoint_progress_def emitProgressEvent_def stored_versions_doCheckpoint)

lemma subseq_subset: "subseq xs ys \<Longrightarrow> set xs \<subseteq> set ys"
  by (induction rule: list_emb.induct) auto

lemma subseq_sorted_wrt: "subseq xs ys \<Longrightarrow> sorted_wrt P ys \<Longrightarrow> sorted_wrt P xs"
proof (induction rule: list_emb.induct)
  case (list_emb_Nil ys)
  then show ?case by simp
next
  case (list_emb_Cons xs ys y)
  then show ?case by simp
next
  case (list_emb_Cons2 x y xs ys)
  then have "set xs \<subseteq> set ys" by (simp add: subseq_subset)
  with list_emb_Cons2 show ?case by auto
qed


lemma get_crawl_state_post_statements [simp]:
  "get_crawl_state source ds (db_run (DELETE_crawl_posts sid path) d) = get_crawl_state source ds d"
  "get_crawl_state source ds (db_run (DELETE_crawl_posts_of_source sid) d) = get_crawl_state source ds d"
  "get_crawl_state source ds (db_run (UPDATE_crawl_posts a b c u sid path) d) = get_crawl_state source ds d"
  "get_crawl_state source ds (db_run (INSERT_crawl_posts row) d) = get_crawl_state source ds d"
  by (simp_all add: get_crawl_state_def db_run_def)

lemma get_crawl_state_upsert_post:
  "upsert_post rt archive source c post d = Inr d1 \<Longrightarrow>
     get_crawl_state source ds d1 = get_crawl_state source ds d"
  by (auto simp: upsert_post_def Let_def split: sum.splits option.splits)

lemma get_crawl_state_checkpoint_progress:
  "get_crawl_state source ''crawl_posts'' (checkpoint_progress rt archive source c p n d) =
     Some (checkpoint_row rt source (version c))"
  by (simp add: checkpoint_progress_def emitProgressEvent_def get_crawl_state_doCheckpoint
      checkpoint_row_def)

lemma crawl_posts_loop_checkpoints:
  "\<exists>vs. stored_versions ''crawl_posts'' (source_id source)
           (journal (fst (crawl_posts_loop rt archive source n cs p d))) =
         stored_versions ''crawl_posts'' (source_id source) (journal d) @ vs \<and>
        subseq vs (map version cs) \<and>
        get_crawl_state source ''crawl_posts'' (fst (crawl_posts_loop rt archive source n cs p d)) =
          (if vs = [] then get_crawl_state source ''crawl_posts'' d
           else Some (checkpoint_row rt source (last vs)))"
  (is "\<exists>vs. ?P cs p d vs")
proof (induction cs arbitrary: p d)
  case Nil
  then show ?case by simp
next
  case (Cons c cs)
  have step: "\<exists>vs. ?P (c # cs) p d vs"
    if run: "crawl_posts_loop rt archive source n (c # cs) p d =
               crawl_posts_loop rt archive source n cs (p + 1)
                 (checkpoint_progress rt archive source c (p + 1) n d1)"
      and sv: "stored_versions ''crawl_posts'' (source_id source) (journal d1) =
               stored_versions ''crawl_posts'' (source_id source) (journal d)"
    for d1
  proof -
    let ?d2 = "checkpoint_progress rt archive source c (p + 1) n d1"
    from Cons.IH [of "p + 1" ?d2] obtain vs where vs: "?P cs (p + 1) ?d2 vs" by blast
    have "stored_versions ''crawl_posts'' (source_id source) (journal ?d2) =
            stored_versions ''crawl_posts'' (source_id source) (journal d) @ [version c]"
      by (simp add: stored_versions_checkpoint_progress sv)
    with vs show ?thesis
      unfolding run
      by (intro exI [of _ "version c # vs"]) (simp add: get_crawl_state_checkpoint_progress)
  qed
  show ?case
  proof (cases "type c = ''del''")
    case True
    show ?thesis
      by (rule step [of "emit (post_removed (archive_url archive))
                   (db_run (DELETE_crawl_posts (source_id source) (name c)) d)"])
        (simp_all add: True stored_versions_append)
  next
    case notdel: False
    show ?thesis
    proof (cases "readFile archive (name c)")
      case None
      with notdel show ?thesis by (intro exI [of _ "[]"]) simp
    next
      case (Some postString)
      show ?thesis
      proof (cases "parse_post rt postString")
        case None
        from Cons.IH [of p d] obtain vs where "?P cs p d vs" by blast
        with notdel Some None show ?thesis
          by (intro exI [of _ vs]) (simp add: list_emb_Cons)
      next
        case post: (Some post)
        show ?thesis
        proof (cases "upsert_post rt archive source c post d")
          case (Inl err)
          with notdel Some post show ?thesis by (intro exI [of _ "[]"]) simp
        next
          case (Inr d1)
          have gs: "get_crawl_state source ''crawl_posts'' d1 = get_crawl_state source ''crawl_posts'' d"
            by (rule get_crawl_state_upsert_post [OF Inr])
          show ?thesis
            by (rule step [of d1])
              (simp_all add: notdel Some post Inr stored_versions_upsert_post [OF Inr])
        qed
      qed
    qed
  qed
qed

lemma posts_handler_checkpoints:
  "\<exists>vs. stored_versions ''crawl_posts'' (source_id source)
           (journal (fst (posts_handler rt archive source args d))) =
         stored_versions ''crawl_posts'' (source_id source) (journal d) @
           (if resetRequired args then [0] else []) @ vs \<and>
        subseq vs (map version (changes args)) \<and>
        get_crawl_state source ''crawl_posts'' (fst (posts_handler rt archive source args d)) =
          (if (if resetRequired args then [0] else []) @ vs = []
           then get_crawl_state source ''crawl_posts'' d
           else Some (checkpoint_row rt source (last ((if resetRequired args then [0] else []) @ vs))))"
proof -
  let ?cs = "getMatchingChangesInOrder (changes args) JSON_PATH_REGEX"
  let ?d1 = "if resetRequired args then reset_posts rt source d else d"
  let ?d2 = "emitProgressEvent (archive_url archive) ''crawl_posts'' 0 (length ?cs) ?d1"
  from crawl_posts_loop_checkpoints [of source rt archive "length ?cs" ?cs 0 ?d2]
  obtain vs where vs:
    "stored_versions ''crawl_posts'' (source_id source)
       (journal (fst (crawl_posts_loop rt archive source (length ?cs) ?cs 0 ?d2))) =
     stored_versions ''crawl_posts'' (source_id source) (journal ?d2) @ vs"
    "subseq vs (map version ?cs)"
    "get_crawl_state source ''crawl_posts'' (fst (crawl_posts_loop rt archive source (length ?cs) ?cs 0 ?d2)) =
       (if vs = [] then get_crawl_state source ''crawl_posts'' ?d2
        else Some (checkpoint_row rt source (last vs)))" by blast
  have "subseq (map version ?cs) (map version (changes args))"
    by (simp add: getMatchingChangesInOrder_latest subseq_latest_matching subseq_map)
  with vs(2) have sub: "subseq vs (map version (changes args))"
    using subseq_order.order_trans by blast
  have sv: "stored_versions ''crawl_posts'' (source_id source) (journal ?d2) =
          stored_versions ''crawl_posts'' (source_id source) (journal d) @
            (if resetRequired args then [0] else [])"
    by (simp add: emitProgressEvent_def reset_posts_def stored_versions_doCheckpoint
        stored_versions_append)
  have gs: "get_crawl_state source ''crawl_posts'' ?d2 =
          (if resetRequired args then Some (checkpoint_row rt source 0)
           else get_crawl_state source ''crawl_posts'' d)"
    by (simp add: emitProgressEvent_def reset_posts_def get_crawl_state_doCheckpoint
        checkpoint_row_def)
  show ?thesis
    using vs(1,3) sub unfolding sv gs
    by (intro exI [of _ vs]) (simp add: posts_handler_def Let_def)
qed


lemma crawlSite_checkpoints:
  fixes rt archive source d
  defines "st \<equiv> get_crawl_state source ''crawl_posts'' d"
  defines "r \<equiv> (if resetRequired_of st TABLE_VERSION then [0::int] else [])"
  shows "\<exists>new. stored_versions ''crawl_posts'' (source_id source)
            (journal (fst (crawlSite rt archive source d))) =
          stored_versions ''crawl_posts'' (source_id source) (journal d) @ new \<and>
         get_crawl_state source ''crawl_posts'' (fst (crawlSite rt archive source d)) =
           (if new = [] then st else Some (checkpoint_row rt source (last new))) \<and>
         (case history archive (state_crawlSourceVersion st TABLE_VERSION + 1)
                 (archive_version archive + 1) of
            None \<Rightarrow> new = []
          | Some cs \<Rightarrow> \<exists>vs. subseq vs (map version cs) \<and>
                         (new = r @ vs \<or> new = r @ vs @ [archive_version archive]))"
proof (cases "history archive (state_crawlSourceVersion st TABLE_VERSION + 1) (archive_version archive + 1)")
  case None
  then show ?thesis
    by (intro exI [of _ "[]"]) (simp add: crawlSite_def doCrawl_def Let_def st_def)
next
  case (Some cs)
  let ?start = "state_crawlSourceVersion st TABLE_VERSION + 1"
  let ?end = "archive_version archive + 1"
  let ?args = "\<lparr>changes = cs, resetRequired = resetRequired_of st TABLE_VERSION\<rparr>"
  let ?d1 = "emit (crawl_dataset_start (archive_url archive) ''crawl_posts'' ?start ?end) d"
  obtain d2 err where h: "posts_handler rt archive source ?args ?d1 = (d2, err)"
    by (cases "posts_handler rt archive source ?args ?d1")
  from posts_handler_checkpoints [of source rt archive ?args ?d1] h
  obtain vs where vs:
    "stored_versions ''crawl_posts'' (source_id source) (journal d2) =
       stored_versions ''crawl_posts'' (source_id source) (journal d) @ r @ vs"
    "subseq vs (map version cs)"
    "get_crawl_state source ''crawl_posts'' d2 =
       (if r @ vs = [] then st else Some (checkpoint_row rt source (last (r @ vs))))"
    by (auto simp: r_def st_def)
  show ?thesis
  proof (cases err)
    case None
    have run: "fst (crawlSite rt archive source d) =
        emit (crawl_dataset_finish (archive_url archive) ''crawl_posts'' ?start ?end)
          (doCheckpoint rt ''crawl_posts'' TABLE_VERSION source (archive_version archive) d2)"
      using Some h None by (simp add: crawlSite_def doCrawl_def Let_def st_def)
    show ?thesis
      unfolding run using vs Some
      by (intro exI [of _ "r @ vs @ [archive_version archive]"])
         (auto simp: stored_versions_doCheckpoint get_crawl_state_doCheckpoint checkpoint_row_def)
  next
    case (Some e)
    have run: "fst (crawlSite rt archive source d) = d2"
      using \<open>history archive ?start ?end = Some cs\<close> h Some
      by (simp add: crawlSite_def doCrawl_def Let_def st_def)
    show ?thesis
      unfolding run using vs \<open>history archive ?start ?end = Some cs\<close>
      by (intro exI [of _ "r @ vs"]) auto
  qed
qed


text \<open>
  In a run without a reset, under \<open>history_in_window\<close>, the stored versions go up from
  the version the run started from; the state after the run is again without an epoch
  mismatch, so that runs can follow one another.
\<close>

lemma sorted_append_last:
  fixes xs :: "int list"
  shows "sorted xs \<Longrightarrow> xs \<noteq> [] \<Longrightarrow> sorted (last xs # ys) \<Longrightarrow> sorted (xs @ ys)"
proof (induction xs)
  case Nil
  then show ?case by simp
next
  case (Cons x xs)
  show ?case
  proof (cases "xs = []")
    case True
    with Cons.prems show ?thesis by simp
  next
    case False
    with Cons.prems have ih: "sorted (xs @ ys)" by (intro Cons.IH) auto
    from False Cons.prems have "x \<le> last xs" by auto
    moreover from Cons.prems(3) False have "\<forall>y \<in> set ys. last xs \<le> y" by simp
    ultimately have "\<forall>y \<in> set ys. x \<le> y" by fastforce
    with ih Cons.prems show ?thesis by (auto simp: sorted_append)
  qed
qed

lemma crawlSite_run_monotone:
  assumes win: "history_in_window archive (get_crawl_state source ''crawl_posts'' d)"
      and nr: "\<not> resetRequired_of (get_crawl_state source ''crawl_posts'' d) TABLE_VERSION"
  shows "\<exists>new. stored_versions ''crawl_posts'' (source_id source)
            (journal (fst (crawlSite rt archive source d))) =
          stored_versions ''crawl_posts'' (source_id source) (journal d) @ new \<and>
         sorted (state_crawlSourceVersion (get_crawl_state source ''crawl_posts'' d) TABLE_VERSION # new) \<and>
         \<not> resetRequired_of (get_crawl_state source ''crawl_posts'' (fst (crawlSite rt archive source d)))
             TABLE_VERSION \<and>
         state_crawlSourceVersion
           (get_crawl_state source ''crawl_posts'' (fst (crawlSite rt archive source d))) TABLE_VERSION =
           last (state_crawlSourceVersion (get_crawl_state source ''crawl_posts'' d) TABLE_VERSION # new)"
proof -
  let ?st = "get_crawl_state source ''crawl_posts'' d"
  let ?st' = "get_crawl_state source ''crawl_posts'' (fst (crawlSite rt archive source d))"
  let ?s0 = "state_crawlSourceVersion ?st TABLE_VERSION"
  let ?v = "archive_version archive"
  from crawlSite_checkpoints [of source rt archive d]
  obtain new where new:
    "stored_versions ''crawl_posts'' (source_id source)
       (journal (fst (crawlSite rt archive source d))) =
     stored_versions ''crawl_posts'' (source_id source) (journal d) @ new"
    "?st' = (if new = [] then ?st else Some (checkpoint_row rt source (last new)))"
    "case history archive (?s0 + 1) (?v + 1) of
       None \<Rightarrow> new = []
     | Some cs \<Rightarrow> \<exists>vs. subseq vs (map version cs) \<and>
          (new = (if resetRequired_of ?st TABLE_VERSION then [0] else []) @ vs \<or>
           new = (if resetRequired_of ?st TABLE_VERSION then [0] else []) @ vs @ [?v])"
    by blast
  have after: "\<not> resetRequired_of ?st' TABLE_VERSION \<and>
      state_crawlSourceVersion ?st' TABLE_VERSION = last (?s0 # new)"
    using nr unfolding new(2)
    by (simp add: resetRequired_of_def state_crawlSourceVersion_def checkpoint_row_def)
  have "sorted (?s0 # new)"
  proof (cases "history archive (?s0 + 1) (?v + 1)")
    case None
    with new(3) show ?thesis by simp
  next
    case (Some cs)
    with new(3) nr obtain vs where vs: "subseq vs (map version cs)" "new = vs \<or> new = vs @ [?v]"
      by auto
    from win Some have cs: "sorted (map version cs)" "\<forall>c \<in> set cs. ?s0 < version c \<and> version c \<le> ?v"
      and le: "?s0 \<le> ?v"
      by (auto simp: history_in_window_def Let_def)
    from vs(1) cs(1) have svs: "sorted vs" by (rule subseq_sorted_wrt)
    from vs(1) have "set vs \<subseteq> version ` set cs" using subseq_subset by fastforce
    with cs(2) have bounds: "\<forall>x \<in> set vs. ?s0 \<le> x \<and> x \<le> ?v" by fastforce
    from vs(2) svs bounds le show ?thesis by (auto simp: sorted_append)
  qed
  with new(1) after show ?thesis by blast
qed

lemma crawl_runs_monotone_aux:
  "\<not> resetRequired_of (get_crawl_state source ''crawl_posts'' d) TABLE_VERSION \<Longrightarrow>
   archive_contract runs source d \<Longrightarrow>
   \<exists>new. stored_versions ''crawl_posts'' (source_id source) (journal (crawl_runs runs source d)) =
           stored_versions ''crawl_posts'' (source_id source) (journal d) @ new \<and>
         sorted (state_crawlSourceVersion (get_crawl_state source ''crawl_posts'' d) TABLE_VERSION # new)"
proof (induction runs arbitrary: d)
  case Nil
  then show ?case by simp
next
  case (Cons run runs)
  obtain rt archive where run: "run = (rt, archive)" by (cases run)
  let ?d1 = "fst (crawlSite rt archive source d)"
  let ?s0 = "state_crawlSourceVersion (get_crawl_state source ''crawl_posts'' d) TABLE_VERSION"
  from Cons.prems run have win: "history_in_window archive (get_crawl_state source ''crawl_posts'' d)"
    and rest: "archive_contract runs source ?d1" by auto
  from crawlSite_run_monotone [OF win Cons.prems(1), of rt]
  obtain new1 where new1:
    "stored_versions ''crawl_posts'' (source_id source) (journal ?d1) =
       stored_versions ''crawl_posts'' (source_id source) (journal d) @ new1"
    "sorted (?s0 # new1)"
    "\<not> resetRequired_of (get_crawl_state source ''crawl_posts'' ?d1) TABLE_VERSION"
    "state_crawlSourceVersion (get_crawl_state source ''crawl_posts'' ?d1) TABLE_VERSION = last (?s0 # new1)"
    by blast
  from Cons.IH [OF new1(3) rest] obtain new2 where new2:
    "stored_versions ''crawl_posts'' (source_id source) (journal (crawl_runs runs source ?d1)) =
       stored_versions ''crawl_posts'' (source_id source) (journal ?d1) @ new2"
    "sorted (last (?s0 # new1) # new2)"
    unfolding new1(4) by blast
  have "sorted ((?s0 # new1) @ new2)"
    using new1(2) new2(2) by (intro sorted_append_last) auto
  with new1(1) new2(1) run show ?case
    by (intro exI [of _ "new1 @ new2"]) simp
qed

section \<open>Crawl runs\<close>

lemmas feed_defs = feed_runtime_def feed_archive_def feed_source_def feed_db_def feed_log_def

lemmas crawl_defs = crawlSite_def doCrawl_def posts_handler_def reset_posts_def
  get_crawl_state_def resetRequired_of_def state_crawlSourceVersion_def archive_version_def
  TABLE_VERSION_def getMatchingChangesInOrder_def matching_step_def JSON_PATH_REGEX_def
  toLowerCase_def toLowerCase_char_def findIndex_def splice1_def Let_def emit_def
  emitProgressEvent_def checkpoint_progress_def doCheckpoint_def db_run_def upsert_post_def get_def

text \<open>The journal of a run only grows, and a reset puts its three statements first.\<close>

lemma journal_checkpoint_progress:
  "\<exists>js. journal (checkpoint_progress rt archive source c p n d) = journal d @ js"
  by (simp add: checkpoint_progress_def emitProgressEvent_def journal_doCheckpoint)

lemma journal_upsert_post:
  "upsert_post rt archive source c post d = Inr d1 \<Longrightarrow> \<exists>js. journal d1 = journal d @ js"
  by (auto simp: upsert_post_def Let_def split: sum.splits option.splits)

lemma journal_crawl_posts_loop:
  "\<exists>js. journal (fst (crawl_posts_loop rt archive source n cs p d)) = journal d @ js"
proof (induction cs arbitrary: p d)
  case Nil
  then show ?case by simp
next
  case (Cons c cs)
  have step: "\<exists>js. journal (fst (crawl_posts_loop rt archive source n cs (p + 1)
                  (checkpoint_progress rt archive source c (p + 1) n d1))) = journal d @ js"
    if "\<exists>js. journal d1 = journal d @ js" for d1
  proof -
    from that obtain js1 where "journal d1 = journal d @ js1" by blast
    moreover from journal_checkpoint_progress [of rt archive source c "p + 1" n d1]
    obtain js2 where "journal (checkpoint_progress rt archive source c (p + 1) n d1) = journal d1 @ js2"
      by blast
    moreover from Cons.IH [of "p + 1" "checkpoint_progress rt archive source c (p + 1) n d1"]
    obtain js3 where "journal (fst (crawl_posts_loop rt archive source n cs (p + 1)
        (checkpoint_progress rt archive source c (p + 1) n d1))) =
        journal (checkpoint_progress rt archive source c (p + 1) n d1) @ js3" by blast
    ultimately show ?thesis by simp
  qed
  show ?case
  proof (cases "type c = ''del''")
    case True
    with step [of "emit (post_removed (archive_url archive))
                   (db_run (DELETE_crawl_posts (source_id source) (name c)) d)"]
    show ?thesis by simp
  next
    case notdel: False
    show ?thesis
    proof (cases "readFile archive (name c)")
      case None
      with notdel show ?thesis by simp
    next
      case (Some postString)
      show ?thesis
      proof (cases "parse_post rt postString")
        case None
        with notdel Some Cons.IH [of p d] show ?thesis by simp
      next
        case post: (Some post)
        show ?thesis
        proof (cases "upsert_post rt archive source c post d")
          case (Inl err)
          with notdel Some post show ?thesis by simp
        next
          case (Inr d1)
          with notdel Some post step [OF journal_upsert_post [OF Inr]] show ?thesis by simp
        qed
      qed
    qed
  qed
qed

lemma journal_posts_handler_reset:
  "resetRequired args \<Longrightarrow>
   \<exists>js. journal (fst (posts_handler rt archive source args d)) =
     journal d @ [DELETE_crawl_posts_of_source (source_id source),
                  DELETE_crawl_sources_meta ''crawl_posts'' (source_id source),
                  INSERT_crawl_sources_meta (checkpoint_row rt source 0)] @ js"
proof -
  assume r: "resetRequired args"
  let ?cs = "getMatchingChangesInOrder (changes args) JSON_PATH_REGEX"
  let ?d2 = "emitProgressEvent (archive_url archive) ''crawl_posts'' 0 (length ?cs) (reset_posts rt source d)"
  from journal_crawl_posts_loop [of rt archive source "length ?cs" ?cs 0 ?d2]
  obtain js where "journal (fst (crawl_posts_loop rt archive source (length ?cs) ?cs 0 ?d2)) =
      journal ?d2 @ js" by blast
  moreover have "journal ?d2 = journal d @ [DELETE_crawl_posts_of_source (source_id source),
                  DELETE_crawl_sources_meta ''crawl_posts'' (source_id source),
                  INSERT_crawl_sources_meta (checkpoint_row rt source 0)]"
    by (simp add: emitProgressEvent_def reset_posts_def journal_doCheckpoint checkpoint_row_def)
  ultimately show ?thesis using r by (simp add: posts_handler_def Let_def)
qed

text \<open>
  The posts of a run: checkpoints and events leave them alone, a reset leaves none of the
  source, and the loop adds posts only under the names of its changes.
\<close>

lemma crawl_posts_unchanged [simp]:
  "crawl_posts (emit e d) = crawl_posts d"
  "crawl_posts (doCheckpoint rt ds dv source v d) = crawl_posts d"
  "crawl_posts (emitProgressEvent u ds p n d) = crawl_posts d"
  "crawl_posts (checkpoint_progress rt archive source c p n d) = crawl_posts d"
  by (simp_all add: emit_def doCheckpoint_def db_run_def emitProgressEvent_def checkpoint_progress_def)

lemma crawl_posts_reset_posts:
  "crawl_posts (reset_posts rt source d) =
     filter (\<lambda>p. post_crawlSourceId p \<noteq> source_id source) (crawl_posts d)"
  by (simp add: reset_posts_def db_run_def)

lemma pathnames_of_simps [simp]:
  "pathnames_of sid (emit e d) = pathnames_of sid d"
  "pathnames_of sid (checkpoint_progress rt archive source c p n d) = pathnames_of sid d"
  "pathnames_of sid (doCheckpoint rt ds dv source v d) = pathnames_of sid d"
  "pathnames_of sid (emitProgressEvent u ds p n d) = pathnames_of sid d"
  by (simp_all add: pathnames_of_def)

lemma pathnames_of_reset_posts: "pathnames_of (source_id source) (reset_posts rt source d) = {}"
  by (auto simp: pathnames_of_def crawl_posts_reset_posts)

lemma pathnames_of_delete:
  "pathnames_of sid (db_run (DELETE_crawl_posts sid' path) d) \<subseteq> pathnames_of sid d"
  by (auto simp: pathnames_of_def db_run_def)

lemma pathnames_of_upsert_post:
  "upsert_post rt archive source c post d = Inr d1 \<Longrightarrow>
     pathnames_of (source_id source) d1 \<subseteq> insert (name c) (pathnames_of (source_id source) d)"
  by (auto simp: upsert_post_def Let_def pathnames_of_def db_run_def emit_def image_iff
      split: sum.splits option.splits if_splits)

lemma pathnames_of_crawl_posts_loop:
  "pathnames_of (source_id source) (fst (crawl_posts_loop rt archive source n cs p d)) \<subseteq>
     pathnames_of (source_id source) d \<union> name ` set cs"
proof (induction cs arbitrary: p d)
  case Nil
  then show ?case by simp
next
  case (Cons c cs)
  show ?case
  proof (cases "type c = ''del''")
    case True
    let ?d1 = "checkpoint_progress rt archive source c (p + 1) n
                (emit (post_removed (archive_url archive))
                   (db_run (DELETE_crawl_posts (source_id source) (name c)) d))"
    have "pathnames_of (source_id source) ?d1 \<subseteq> pathnames_of (source_id source) d"
      using pathnames_of_delete [of "source_id source" "source_id source" "name c" d] by simp
    with Cons.IH [of "p + 1" ?d1] True show ?thesis by auto
  next
    case notdel: False
    show ?thesis
    proof (cases "readFile archive (name c)")
      case None
      with notdel show ?thesis by auto
    next
      case (Some s)
      show ?thesis
      proof (cases "parse_post rt s")
        case None
        with notdel Some Cons.IH [of p d] show ?thesis by auto
      next
        case post: (Some post)
        show ?thesis
        proof (cases "upsert_post rt archive source c post d")
          case (Inl err)
          with notdel Some post show ?thesis by auto
        next
          case (Inr d1)
          let ?d2 = "checkpoint_progress rt archive source c (p + 1) n d1"
          from pathnames_of_upsert_post [OF Inr]
          have "pathnames_of (source_id source) ?d2 \<subseteq> insert (name c) (pathnames_of (source_id source) d)"
            by simp
          with Cons.IH [of "p + 1" ?d2] notdel Some post Inr show ?thesis by auto
        qed
      qed
    qed
  qed
qed

lemma posts_handler_reset_run:
  assumes "resetRequired args"
  shows "posts_handler rt archive source args d =
           crawl_posts_loop rt archive source
             (length (getMatchingChangesInOrder (changes args) JSON_PATH_REGEX))
             (getMatchingChangesInOrder (changes args) JSON_PATH_REGEX) 0
             (emitProgressEvent (archive_url archive) ''crawl_posts'' 0
                (length (getMatchingChangesInOrder (changes args) JSON_PATH_REGEX))
                (reset_posts rt source d))"
  using assms by (simp add: posts_handler_def Let_def)

lemma pathnames_of_posts_handler_reset:
  assumes "resetRequired args"
  shows "pathnames_of (source_id source) (fst (posts_handler rt archive source args d)) \<subseteq>
           name ` set (changes args)"
proof -
  let ?cs = "getMatchingChangesInOrder (changes args) JSON_PATH_REGEX"
  have "set ?cs \<subseteq> set (changes args)"
    by (simp add: getMatchingChangesInOrder_latest set_latest_matching)
  then have "name ` set ?cs \<subseteq> name ` set (changes args)" by blast
  with pathnames_of_crawl_posts_loop [of source rt archive "length ?cs" ?cs 0
      "emitProgressEvent (archive_url archive) ''crawl_posts'' 0 (length ?cs) (reset_posts rt source d)"]
  show ?thesis
    unfolding posts_handler_reset_run [OF assms]
    by (auto simp: pathnames_of_reset_posts)
qed


text \<open>
  Claim C4. A checkpoint of the dataset and source is stored with an epoch other than the
  epoch the crawl is invoked with, and the history of the archive can be read. Then
  \<open>doCrawl\<close>, for every dataset and handler, takes the source version as 0 (the history
  is read from version 1) and gives the handler \<open>resetRequired = true\<close>. In a crawl of the
  posts dataset the handler first deletes every post of the source and stores the
  checkpoint at source version 0: the run goes through a state \<open>d_reset\<close> whose posts are
  the posts from before the run without those of the source, whose stored checkpoint is the
  one at 0, and whose journal is the journal from before with the three statements of the
  reset and nothing else; the loop over the changes starts from this state, and every
  other statement of the run comes after. When the run has ended, every post of the source
  has the name of a change of the window: no post of the source from before the run is
  left.
\<close>

theorem doCrawl_epoch_change_resets:
  assumes st: "get_crawl_state source dataset d = Some s"
      and ep: "crawlDatasetVersion s \<noteq> datasetVersion"
      and hist: "history archive 1 (archive_version archive + 1) = Some cs"
  shows "doCrawl rt archive source dataset datasetVersion handlerFn d =
           (case handlerFn \<lparr>changes = cs, resetRequired = True\<rparr>
                   (emit (crawl_dataset_start (archive_url archive) dataset 1 (archive_version archive + 1)) d) of
              (d2, Some err) \<Rightarrow> (d2, Some err)
            | (d2, None) \<Rightarrow>
                (emit (crawl_dataset_finish (archive_url archive) dataset 1 (archive_version archive + 1))
                   (doCheckpoint rt dataset datasetVersion source (archive_version archive) d2), None)) \<and>
         (dataset = ''crawl_posts'' \<and> datasetVersion = TABLE_VERSION \<longrightarrow>
            (\<exists>d_reset js.
               crawl_posts d_reset =
                 filter (\<lambda>p. post_crawlSourceId p \<noteq> source_id source) (crawl_posts d) \<and>
               get_crawl_state source ''crawl_posts'' d_reset = Some (checkpoint_row rt source 0) \<and>
               journal d_reset =
                 journal d @ [DELETE_crawl_posts_of_source (source_id source),
                              DELETE_crawl_sources_meta ''crawl_posts'' (source_id source),
                              INSERT_crawl_sources_meta (checkpoint_row rt source 0)] \<and>
               posts_handler rt archive source \<lparr>changes = cs, resetRequired = True\<rparr>
                   (emit (crawl_dataset_start (archive_url archive) ''crawl_posts'' 1
                            (archive_version archive + 1)) d) =
                 crawl_posts_loop rt archive source
                   (length (getMatchingChangesInOrder cs JSON_PATH_REGEX))
                   (getMatchingChangesInOrder cs JSON_PATH_REGEX) 0
                   (emitProgressEvent (archive_url archive) ''crawl_posts'' 0
                      (length (getMatchingChangesInOrder cs JSON_PATH_REGEX)) d_reset) \<and>
               journal (fst (crawlSite rt archive source d)) = journal d_reset @ js) \<and>
            (\<forall>p \<in> set (crawl_posts (fst (crawlSite rt archive source d))).
               post_crawlSourceId p = source_id source \<longrightarrow> post_pathname p \<in> name ` set cs))"
proof (intro conjI impI)
  show run: "doCrawl rt archive source dataset datasetVersion handlerFn d =
           (case handlerFn \<lparr>changes = cs, resetRequired = True\<rparr>
                   (emit (crawl_dataset_start (archive_url archive) dataset 1 (archive_version archive + 1)) d) of
              (d2, Some err) \<Rightarrow> (d2, Some err)
            | (d2, None) \<Rightarrow>
                (emit (crawl_dataset_finish (archive_url archive) dataset 1 (archive_version archive + 1))
                   (doCheckpoint rt dataset datasetVersion source (archive_version archive) d2), None))"
    for handlerFn
    using st ep hist
    by (simp add: doCrawl_def Let_def resetRequired_of_def state_crawlSourceVersion_def)
  let ?d1 = "emit (crawl_dataset_start (archive_url archive) ''crawl_posts'' 1 (archive_version archive + 1)) d"
  let ?args = "\<lparr>changes = cs, resetRequired = True\<rparr>"
  let ?reset = "reset_posts rt source ?d1"
  let ?res = "getMatchingChangesInOrder cs JSON_PATH_REGEX"
  let ?d2 = "emitProgressEvent (archive_url archive) ''crawl_posts'' 0 (length ?res) ?reset"
  obtain d3 err where h: "posts_handler rt archive source ?args ?d1 = (d3, err)"
    by (cases "posts_handler rt archive source ?args ?d1")
  have handler: "posts_handler rt archive source ?args ?d1 =
      crawl_posts_loop rt archive source (length ?res) ?res 0 ?d2"
    using posts_handler_reset_run [of ?args rt archive source ?d1] by simp
  {
    assume posts: "dataset = ''crawl_posts'' \<and> datasetVersion = TABLE_VERSION"
    have final: "fst (crawlSite rt archive source d) = d3 \<or>
        fst (crawlSite rt archive source d) =
          emit (crawl_dataset_finish (archive_url archive) ''crawl_posts'' 1 (archive_version archive + 1))
            (doCheckpoint rt ''crawl_posts'' TABLE_VERSION source (archive_version archive) d3)"
      using run [of "posts_handler rt archive source"] posts h
      by (cases err) (simp_all add: crawlSite_def)
    have rows: "crawl_posts ?reset =
        filter (\<lambda>p. post_crawlSourceId p \<noteq> source_id source) (crawl_posts d)"
      by (simp add: crawl_posts_reset_posts)
    have state: "get_crawl_state source ''crawl_posts'' ?reset = Some (checkpoint_row rt source 0)"
      by (simp add: reset_posts_def get_crawl_state_doCheckpoint checkpoint_row_def)
    have jr: "journal ?reset =
        journal d @ [DELETE_crawl_posts_of_source (source_id source),
                     DELETE_crawl_sources_meta ''crawl_posts'' (source_id source),
                     INSERT_crawl_sources_meta (checkpoint_row rt source 0)]"
      by (simp add: reset_posts_def journal_doCheckpoint checkpoint_row_def)
    from journal_crawl_posts_loop [of rt archive source "length ?res" ?res 0 ?d2] h handler
    obtain js where "journal d3 = journal ?reset @ js"
      by (auto simp: emitProgressEvent_def)
    with final have "\<exists>js. journal (fst (crawlSite rt archive source d)) = journal ?reset @ js"
      by (auto simp: journal_doCheckpoint)
    with rows state jr handler
    show "\<exists>d_reset js.
               crawl_posts d_reset =
                 filter (\<lambda>p. post_crawlSourceId p \<noteq> source_id source) (crawl_posts d) \<and>
               get_crawl_state source ''crawl_posts'' d_reset = Some (checkpoint_row rt source 0) \<and>
               journal d_reset =
                 journal d @ [DELETE_crawl_posts_of_source (source_id source),
                              DELETE_crawl_sources_meta ''crawl_posts'' (source_id source),
                              INSERT_crawl_sources_meta (checkpoint_row rt source 0)] \<and>
               posts_handler rt archive source \<lparr>changes = cs, resetRequired = True\<rparr>
                   (emit (crawl_dataset_start (archive_url archive) ''crawl_posts'' 1
                            (archive_version archive + 1)) d) =
                 crawl_posts_loop rt archive source
                   (length (getMatchingChangesInOrder cs JSON_PATH_REGEX))
                   (getMatchingChangesInOrder cs JSON_PATH_REGEX) 0
                   (emitProgressEvent (archive_url archive) ''crawl_posts'' 0
                      (length (getMatchingChangesInOrder cs JSON_PATH_REGEX)) d_reset) \<and>
               journal (fst (crawlSite rt archive source d)) = journal d_reset @ js"
      by blast
    from pathnames_of_posts_handler_reset [of ?args source rt archive ?d1] h
    have "pathnames_of (source_id source) d3 \<subseteq> name ` set cs" by simp
    moreover from final have "pathnames_of (source_id source) (fst (crawlSite rt archive source d)) =
        pathnames_of (source_id source) d3" by auto
    ultimately have sub: "pathnames_of (source_id source) (fst (crawlSite rt archive source d)) \<subseteq>
        name ` set cs" by simp
    show "\<forall>p \<in> set (crawl_posts (fst (crawlSite rt archive source d))).
               post_crawlSourceId p = source_id source \<longrightarrow> post_pathname p \<in> name ` set cs"
    proof (intro ballI impI)
      fix p
      assume "p \<in> set (crawl_posts (fst (crawlSite rt archive source d)))"
        and "post_crawlSourceId p = source_id source"
      then have "post_pathname p \<in> pathnames_of (source_id source) (fst (crawlSite rt archive source d))"
        unfolding pathnames_of_def by blast
      with sub show "post_pathname p \<in> name ` set cs" by blast
    qed
  }
qed

theorem doCrawl_epoch_change_resets_witness:
  "get_crawl_state feed_source ''crawl_posts''
     (feed_db_indexed [\<lparr>crawlDataset = ''crawl_posts'', crawlDatasetVersion = 0, crawlSourceId = ''1'',
                        crawlSourceVersion = 3, updatedAt = 0\<rparr>]) =
     Some \<lparr>crawlDataset = ''crawl_posts'', crawlDatasetVersion = 0, crawlSourceId = ''1'',
           crawlSourceVersion = 3, updatedAt = 0\<rparr> \<and>
   crawlDatasetVersion \<lparr>crawlDataset = ''crawl_posts'', crawlDatasetVersion = 0, crawlSourceId = ''1'',
           crawlSourceVersion = 3, updatedAt = 0\<rparr> \<noteq> TABLE_VERSION \<and>
   history (feed_archive [(''/data/feed/a.json'', ''first''), (''/data/feed/b.json'', ''second''),
                          (''/data/feed/c.json'', ''third'')]) 1
     (archive_version (feed_archive [(''/data/feed/a.json'', ''first''), (''/data/feed/b.json'', ''second''),
                          (''/data/feed/c.json'', ''third'')]) + 1) = Some feed_log \<and>
   map post_pathname (filter (\<lambda>p. post_crawlSourceId p = ''1'')
     (crawl_posts (feed_db_indexed [\<lparr>crawlDataset = ''crawl_posts'', crawlDatasetVersion = 0,
        crawlSourceId = ''1'', crawlSourceVersion = 3, updatedAt = 0\<rparr>]))) =
     [''/data/feed/old.json'', ''/data/feed/a.json''] \<and>
   (\<exists>d_reset js.
      crawl_posts d_reset =
        [\<lparr>post_crawlSourceId = ''2'', post_pathname = ''/data/feed/a.json'', post_crawledAt = 11,
          post_body = ''of bob'', post_createdAt = Some 2, post_updatedAt = 0\<rparr>] \<and>
      get_crawl_state feed_source ''crawl_posts'' d_reset = Some (checkpoint_row feed_runtime feed_source 0) \<and>
      journal (fst (crawlSite feed_runtime
        (feed_archive [(''/data/feed/a.json'', ''first''), (''/data/feed/b.json'', ''second''),
                       (''/data/feed/c.json'', ''third'')])
        feed_source
        (feed_db_indexed [\<lparr>crawlDataset = ''crawl_posts'', crawlDatasetVersion = 0, crawlSourceId = ''1'',
                           crawlSourceVersion = 3, updatedAt = 0\<rparr>]))) =
        [DELETE_crawl_posts_of_source ''1'',
         DELETE_crawl_sources_meta ''crawl_posts'' ''1'',
         INSERT_crawl_sources_meta (checkpoint_row feed_runtime feed_source 0)] @ js) \<and>
   map post_body (crawl_posts (fst (crawlSite feed_runtime
        (feed_archive [(''/data/feed/a.json'', ''first''), (''/data/feed/b.json'', ''second''),
                       (''/data/feed/c.json'', ''third'')])
        feed_source
        (feed_db_indexed [\<lparr>crawlDataset = ''crawl_posts'', crawlDatasetVersion = 0, crawlSourceId = ''1'',
                           crawlSourceVersion = 3, updatedAt = 0\<rparr>])))) =
     [''of bob'', ''first'', ''second'', ''third'']"
proof -
  let ?row = "\<lparr>crawlDataset = ''crawl_posts'', crawlDatasetVersion = 0, crawlSourceId = ''1'',
           crawlSourceVersion = (3::int), updatedAt = 0\<rparr>"
  let ?a = "feed_archive [(''/data/feed/a.json'', ''first''), (''/data/feed/b.json'', ''second''),
                       (''/data/feed/c.json'', ''third'')]"
  let ?d = "feed_db_indexed [?row]"
  have h1: "get_crawl_state feed_source ''crawl_posts'' ?d = Some ?row"
    by (simp add: get_crawl_state_def feed_db_indexed_def feed_db_def feed_source_def)
  have h2: "crawlDatasetVersion ?row \<noteq> TABLE_VERSION"
    by (simp add: TABLE_VERSION_def)
  have h3: "history ?a 1 (archive_version ?a + 1) = Some feed_log"
    by (simp add: feed_archive_def archive_version_def feed_log_def)
  have before: "map post_pathname (filter (\<lambda>p. post_crawlSourceId p = ''1'') (crawl_posts ?d)) =
     [''/data/feed/old.json'', ''/data/feed/a.json'']"
    by (simp add: feed_db_indexed_def feed_db_def)
  have keep: "filter (\<lambda>p. post_crawlSourceId p \<noteq> ''1'') (crawl_posts ?d) =
      [\<lparr>post_crawlSourceId = ''2'', post_pathname = ''/data/feed/a.json'', post_crawledAt = 11,
          post_body = ''of bob'', post_createdAt = Some 2, post_updatedAt = 0\<rparr>]"
    by (simp add: feed_db_indexed_def feed_db_def)
  have j: "journal ?d = []" by (simp add: feed_db_indexed_def feed_db_def)
  have sid: "source_id feed_source = ''1''" by (simp add: feed_source_def)
  have after: "map post_body (crawl_posts (fst (crawlSite feed_runtime ?a feed_source ?d))) =
     [''of bob'', ''first'', ''second'', ''third'']"
    by (simp add: feed_db_indexed_def feed_defs crawl_defs)
  from doCrawl_epoch_change_resets [OF h1 h2 h3, of feed_runtime "posts_handler feed_runtime ?a feed_source"]
  obtain d_reset js where
    "crawl_posts d_reset = filter (\<lambda>p. post_crawlSourceId p \<noteq> source_id feed_source) (crawl_posts ?d)"
    "get_crawl_state feed_source ''crawl_posts'' d_reset = Some (checkpoint_row feed_runtime feed_source 0)"
    "journal d_reset =
       journal ?d @ [DELETE_crawl_posts_of_source (source_id feed_source),
                     DELETE_crawl_sources_meta ''crawl_posts'' (source_id feed_source),
                     INSERT_crawl_sources_meta (checkpoint_row feed_runtime feed_source 0)]"
    "journal (fst (crawlSite feed_runtime ?a feed_source ?d)) = journal d_reset @ js"
    by blast
  then have "\<exists>d_reset js.
      crawl_posts d_reset =
        [\<lparr>post_crawlSourceId = ''2'', post_pathname = ''/data/feed/a.json'', post_crawledAt = 11,
          post_body = ''of bob'', post_createdAt = Some 2, post_updatedAt = 0\<rparr>] \<and>
      get_crawl_state feed_source ''crawl_posts'' d_reset = Some (checkpoint_row feed_runtime feed_source 0) \<and>
      journal (fst (crawlSite feed_runtime ?a feed_source ?d)) =
        [DELETE_crawl_posts_of_source ''1'',
         DELETE_crawl_sources_meta ''crawl_posts'' ''1'',
         INSERT_crawl_sources_meta (checkpoint_row feed_runtime feed_source 0)] @ js"
    unfolding j sid by (intro exI [of _ d_reset] exI [of _ js]) (simp add: keep)
  with h1 h2 h3 before after show ?thesis by (intro conjI)
qed

text \<open>
  Claim C6, amended. When no checkpoint is stored for the dataset and source, \<open>doCrawl\<close>
  takes the source version as 0 (the history is read from version 1, and the range of the
  start event begins at 1) and gives the handler \<open>resetRequired = false\<close>: only a stored
  checkpoint of another epoch sets \<open>resetRequired\<close>.
\<close>

theorem doCrawl_without_checkpoint:
  assumes "get_crawl_state source dataset d = None"
  shows "doCrawl rt archive source dataset datasetVersion handlerFn d =
           (case history archive 1 (archive_version archive + 1) of
              None \<Rightarrow> (d, Some HistoryReadFailed)
            | Some cs \<Rightarrow>
                (case handlerFn \<lparr>changes = cs, resetRequired = False\<rparr>
                        (emit (crawl_dataset_start (archive_url archive) dataset 1 (archive_version archive + 1)) d) of
                   (d2, Some err) \<Rightarrow> (d2, Some err)
                 | (d2, None) \<Rightarrow>
                     (emit (crawl_dataset_finish (archive_url archive) dataset 1 (archive_version archive + 1))
                        (doCheckpoint rt dataset datasetVersion source (archive_version archive) d2), None)))"
  using assms
  by (cases "history archive 1 (archive_version archive + 1)")
     (simp_all add: doCrawl_def Let_def resetRequired_of_def state_crawlSourceVersion_def)

theorem doCrawl_without_checkpoint_witness:
  "get_crawl_state feed_source ''crawl_posts'' (feed_db []) = None \<and>
   doCrawl feed_runtime (feed_archive []) feed_source ''crawl_posts'' TABLE_VERSION
       (\<lambda>args d. (emit (post_added (if resetRequired args then ''reset'' else ''no reset'')) d, None))
       (feed_db []) =
     (\<lparr>crawl_sources = [feed_source],
       crawl_sources_meta = [checkpoint_row feed_runtime feed_source 3],
       crawl_posts = [],
       journal = [DELETE_crawl_sources_meta ''crawl_posts'' ''1'',
                  INSERT_crawl_sources_meta (checkpoint_row feed_runtime feed_source 3)],
       emitted = [crawl_dataset_start ''dat://alice'' ''crawl_posts'' 1 4,
                  post_added ''no reset'',
                  crawl_dataset_finish ''dat://alice'' ''crawl_posts'' 1 4]\<rparr>, None)"
proof -
  have h: "get_crawl_state feed_source ''crawl_posts'' (feed_db []) = None"
    by (simp add: get_crawl_state_def feed_db_def)
  show ?thesis
    using h doCrawl_without_checkpoint [OF h, of feed_runtime "feed_archive []" TABLE_VERSION
        "\<lambda>args d. (emit (post_added (if resetRequired args then ''reset'' else ''no reset'')) d, None)"]
    by (simp add: feed_defs archive_version_def emit_def doCheckpoint_def db_run_def checkpoint_row_def
        TABLE_VERSION_def)
qed

theorem no_checkpoint_no_reset:
  "get_crawl_state feed_source ''crawl_posts'' (feed_db []) = None \<and>
   \<not> resetRequired_of (get_crawl_state feed_source ''crawl_posts'' (feed_db [])) TABLE_VERSION \<and>
   journal (fst (crawlSite feed_runtime (feed_archive []) feed_source (feed_db []))) =
     [DELETE_crawl_sources_meta ''crawl_posts'' ''1'',
      INSERT_crawl_sources_meta (checkpoint_row feed_runtime feed_source 3)]"
  by (simp add: feed_defs crawl_defs checkpoint_row_def)

text \<open>
  Claim C1 says that a file of an add or change entry that cannot be read aborts the rest
  of the run, and that the stored source version does not pass the last entry that was
  applied; in particular it is not set to the version of the archive. The code keeps the
  first part inside the handler and breaks the second: the handler leaves with \<open>return\<close>,
  so \<open>doCrawl\<close> goes on to its final checkpoint. On the feed of three posts, checkpoint at
  0, when \<open>b.json\<close> cannot be read: \<open>crawlSite\<close> ends without an error, only \<open>a.json\<close>
  is indexed (\<open>c.json\<close> is not), and the source versions stored are 1 and then 3, the
  version of the archive.
\<close>

theorem read_failure_checkpoint_advances:
  "readFile (feed_archive [(''/data/feed/a.json'', ''first''), (''/data/feed/c.json'', ''third'')])
     ''/data/feed/b.json'' = None \<and>
   snd (crawlSite feed_runtime
          (feed_archive [(''/data/feed/a.json'', ''first''), (''/data/feed/c.json'', ''third'')])
          feed_source (feed_db [checkpoint_row feed_runtime feed_source 0])) = None \<and>
   map post_pathname (crawl_posts (fst (crawlSite feed_runtime
          (feed_archive [(''/data/feed/a.json'', ''first''), (''/data/feed/c.json'', ''third'')])
          feed_source (feed_db [checkpoint_row feed_runtime feed_source 0])))) = [''/data/feed/a.json''] \<and>
   stored_versions ''crawl_posts'' ''1'' (journal (fst (crawlSite feed_runtime
          (feed_archive [(''/data/feed/a.json'', ''first''), (''/data/feed/c.json'', ''third'')])
          feed_source (feed_db [checkpoint_row feed_runtime feed_source 0])))) = [1, 3] \<and>
   get_crawl_state feed_source ''crawl_posts'' (fst (crawlSite feed_runtime
          (feed_archive [(''/data/feed/a.json'', ''first''), (''/data/feed/c.json'', ''third'')])
          feed_source (feed_db [checkpoint_row feed_runtime feed_source 0]))) =
     Some (checkpoint_row feed_runtime feed_source 3)"
  by (simp add: feed_defs crawl_defs checkpoint_row_def)

text \<open>
  Claim C5, amended. A sequence of crawl runs of the posts dataset starts from a state
  without a checkpoint of another epoch (none is stored, or one of \<open>TABLE_VERSION\<close>), and
  in every run the archive keeps to \<open>history_in_window\<close>. Then the source versions that
  the runs store, one after the other, never decrease, beginning with the source version
  that was stored at the start (0 when there was none). Runs that stop at an unreadable
  file, that fail to read the history or that throw are among them.
\<close>

theorem crawl_runs_checkpoint_monotone:
  assumes "\<not> resetRequired_of (get_crawl_state source ''crawl_posts'' d) TABLE_VERSION"
      and "archive_contract runs source d"
  shows "\<exists>new. stored_versions ''crawl_posts'' (source_id source) (journal (crawl_runs runs source d)) =
           stored_versions ''crawl_posts'' (source_id source) (journal d) @ new \<and>
         sorted (state_crawlSourceVersion (get_crawl_state source ''crawl_posts'' d) TABLE_VERSION # new)"
  using assms by (rule crawl_runs_monotone_aux)

theorem crawl_runs_checkpoint_monotone_witness:
  "\<not> resetRequired_of (get_crawl_state feed_source ''crawl_posts'' (feed_db [])) TABLE_VERSION \<and>
   archive_contract
     [(feed_runtime, feed_archive [(''/data/feed/a.json'', ''first''), (''/data/feed/c.json'', ''third'')]),
      (feed_runtime, feed_archive [])]
     feed_source (feed_db []) \<and>
   (\<exists>new. stored_versions ''crawl_posts'' (source_id feed_source)
       (journal (crawl_runs
          [(feed_runtime, feed_archive [(''/data/feed/a.json'', ''first''), (''/data/feed/c.json'', ''third'')]),
           (feed_runtime, feed_archive [])]
          feed_source (feed_db []))) =
      stored_versions ''crawl_posts'' (source_id feed_source) (journal (feed_db [])) @ new \<and>
      sorted (state_crawlSourceVersion (get_crawl_state feed_source ''crawl_posts'' (feed_db [])) TABLE_VERSION # new))"
proof -
  have h1: "\<not> resetRequired_of (get_crawl_state feed_source ''crawl_posts'' (feed_db [])) TABLE_VERSION"
    by (simp add: feed_defs crawl_defs)
  have h2: "archive_contract
     [(feed_runtime, feed_archive [(''/data/feed/a.json'', ''first''), (''/data/feed/c.json'', ''third'')]),
      (feed_runtime, feed_archive [])]
     feed_source (feed_db [])"
    by (simp add: history_in_window_def feed_defs crawl_defs)
  from crawl_runs_checkpoint_monotone [OF h1 h2] h1 h2 show ?thesis by blast
qed

theorem epoch_change_lowers_checkpoint:
  "map_option crawlSourceVersion
     (get_crawl_state feed_source ''crawl_posts''
        (feed_db [\<lparr>crawlDataset = ''crawl_posts'', crawlDatasetVersion = 0, crawlSourceId = ''1'',
                   crawlSourceVersion = 3, updatedAt = 0\<rparr>])) = Some 3 \<and>
   snd (crawlSite feed_runtime
          (feed_archive [(''/data/feed/a.json'', ''first''), (''/data/feed/b.json'', ''second''),
                         (''/data/feed/c.json'', ''third'')])
          feed_source
          (feed_db [\<lparr>crawlDataset = ''crawl_posts'', crawlDatasetVersion = 0, crawlSourceId = ''1'',
                     crawlSourceVersion = 3, updatedAt = 0\<rparr>])) = None \<and>
   stored_versions ''crawl_posts'' ''1''
     (journal (fst (crawlSite feed_runtime
        (feed_archive [(''/data/feed/a.json'', ''first''), (''/data/feed/b.json'', ''second''),
                       (''/data/feed/c.json'', ''third'')])
        feed_source
        (feed_db [\<lparr>crawlDataset = ''crawl_posts'', crawlDatasetVersion = 0, crawlSourceId = ''1'',
                   crawlSourceVersion = 3, updatedAt = 0\<rparr>])))) = [0, 1, 2, 3, 3] \<and>
   \<not> sorted ((3 :: int) # [0, 1, 2, 3, 3])"
  by (simp add: feed_defs crawl_defs)











text \<open>
  \<open>get\<close> finds no post when no source of \<open>crawl_sources\<close> has the origin of the
  archive's url as its url; the upsert then inserts, the first time and again the second.
\<close>

lemma get_misses_other_origin:
  assumes "archive_url archive \<noteq> []" "URL_parse rt (archive_url archive) = Some (origin, upath)"
      and "\<forall>src \<in> set (crawl_sources d). source_url src \<noteq> origin"
  shows "get rt (archive_url archive) path d = Inr None"
  using assms by (simp add: get_def Let_def find_None_iff)

lemma upsert_twice_inserts_twice:
  assumes url: "archive_url archive \<noteq> []"
      and u1: "URL_parse rt1 (archive_url archive) = Some (origin, upath)"
      and u2: "URL_parse rt2 (archive_url archive) = Some (origin, upath)"
      and other: "\<forall>src \<in> set (crawl_sources d). source_url src \<noteq> origin"
  shows "\<exists>d2. upsert_twice rt1 rt2 archive source c post d = Inr d2 \<and>
           crawl_posts d2 =
             crawl_posts d @ [post_row rt1 source c post, post_row rt2 source c post]"
proof -
  let ?d1 = "emit (post_added (archive_url archive))
               (db_run (INSERT_crawl_posts (post_row rt1 source c post)) d)"
  have first: "upsert_post rt1 archive source c post d = Inr ?d1"
    using get_misses_other_origin [OF url u1 other, of "name c"]
    by (simp add: upsert_post_def Let_def post_row_def)
  have "\<forall>src \<in> set (crawl_sources ?d1). source_url src \<noteq> origin"
    using other by (simp add: emit_def db_run_def)
  from get_misses_other_origin [OF url u2 this, of "name c"]
  have second: "upsert_post rt2 archive source c post ?d1 =
      Inr (emit (post_added (archive_url archive))
             (db_run (INSERT_crawl_posts (post_row rt2 source c post)) ?d1))"
    by (simp add: upsert_post_def Let_def post_row_def)
  show ?thesis
    unfolding upsert_twice_def first
    by (simp add: second) (simp add: emit_def db_run_def)
qed

text \<open>
  Claim C8 says that an add or change entry applied in two successive runs leaves the row
  that one application leaves: the upsert goes by source id and pathname, overwrites the
  row when there is one and inserts otherwise, and no second row comes to be. The code
  does not keep this. Whether there is a row is asked of \<open>get(archive.url, name)\<close>, which
  joins \<open>crawl_sources\<close> on the origin of the url; the url of an archive is a \<open>dat://\<close>
  url, its origin is the string \<open>null\<close>, and \<open>crawl_sources\<close> has the source under its
  url. So no row is found, and the entry is inserted every time. On the feed, with the
  source in \<open>crawl_sources\<close>: one row for \<open>a.json\<close> after the first application, two
  rows after the second, crawled at 1000 and at 2000.
\<close>

theorem upsert_twice_inserts_duplicate:
  "URL_parse feed_runtime (archive_url (feed_archive [])) = Some (''null'', []) \<and>
   crawl_sources (feed_db []) = [\<lparr>source_id = ''1'', source_url = ''dat://alice''\<rparr>] \<and>
   map_sum id crawl_posts
     (upsert_post feed_runtime (feed_archive []) feed_source (hd feed_log)
        \<lparr>content_body = ''first'', createdAt_number = Some 5, updatedAt_number = None\<rparr> (feed_db [])) =
     Inr [\<lparr>post_crawlSourceId = ''1'', post_pathname = ''/data/feed/a.json'', post_crawledAt = 1000,
           post_body = ''first'', post_createdAt = Some 5, post_updatedAt = 0\<rparr>] \<and>
   map_sum id crawl_posts
     (upsert_twice feed_runtime (feed_runtime\<lparr>Date_now := 2000\<rparr>) (feed_archive []) feed_source (hd feed_log)
        \<lparr>content_body = ''first'', createdAt_number = Some 5, updatedAt_number = None\<rparr> (feed_db [])) =
     Inr [\<lparr>post_crawlSourceId = ''1'', post_pathname = ''/data/feed/a.json'', post_crawledAt = 1000,
           post_body = ''first'', post_createdAt = Some 5, post_updatedAt = 0\<rparr>,
          \<lparr>post_crawlSourceId = ''1'', post_pathname = ''/data/feed/a.json'', post_crawledAt = 2000,
           post_body = ''first'', post_createdAt = Some 5, post_updatedAt = 0\<rparr>]"
  by (simp add: upsert_twice_def upsert_post_def get_def feed_defs Let_def db_run_def emit_def)

section \<open>Search and suggestions\<close>

text \<open>
  The clamp of \<open>hops\<close>: every number that is given, \<open>NaN\<close> apart, becomes 1 or 2, and
  the sources of the two values are the user alone, and the user with the sources that the
  user follows.
\<close>

lemma clamp_floor:
  "Math_min (Math_max (Finite (of_int k)) (Finite 1)) (Finite 2) = (if k \<le> 1 then Finite 1 else Finite 2)"
proof -
  consider "k \<le> 1" | "k = 2" | "2 < k" by linarith
  then show ?thesis
    by cases (simp_all add: Math_max_def Math_min_def)
qed

lemma clamp_hops_supplied:
  "n \<noteq> NaN \<Longrightarrow> clamp_hops (Some n) = Finite 1 \<or> clamp_hops (Some n) = Finite 2"
proof (cases n)
  case (Finite q)
  then show ?thesis by (simp add: clamp_hops_def clamp_floor)
qed (simp_all add: clamp_hops_def Math_max_def Math_min_def)

lemma clamp_hops_values:
  "clamp_hops (Some (Finite 1)) = Finite 1" "clamp_hops (Some (Finite 2)) = Finite 2"
  "clamp_hops (Some (Finite 0)) = Finite 1" "clamp_hops (Some (Finite 7)) = Finite 2"
  "clamp_hops (Some (Finite (3 / 2))) = Finite 1"
  by (simp_all add: clamp_hops_def Math_max_def Math_min_def)

lemma crawlSourceIds_for_hops:
  "crawlSourceIds_for idx uid (Finite 1) = Some [uid]"
  "crawlSourceIds_for idx uid (Finite 2) = Some (uid # followed_source_ids idx uid)"
  by (simp_all add: crawlSourceIds_for_def)

lemma set_followed_source_ids:
  "set (followed_source_ids idx uid) =
     {source_id src | src edge. src \<in> set (idx_crawl_sources idx) \<and> edge \<in> set (idx_crawl_followgraph idx) \<and>
        fg_destUrl edge = source_url src \<and> fg_crawlSourceId edge = uid}"
  by (auto simp: followed_source_ids_def)

text \<open>
  Claim C7 says that \<open>hops\<close> is 1 when it is left out, is clamped to 1 or 2, that the
  sources for 1 are the user alone and for 2 the user and the sources the user follows.
  The lemmas above show the clamp and the two lists of sources for every number given.
  The code does not keep the default: when \<open>hops\<close> is left out the clamp gives \<open>NaN\<close>,
  neither branch is taken, and \<open>crawlSourceIds\<close> stays undefined.
\<close>

theorem hops_omitted_leaves_scope_undefined:
  "clamp_hops None = NaN \<and> crawlSourceIds_for idx userCrawlSourceId (clamp_hops None) = None"
  by (simp add: clamp_hops_def Math_max_def Math_min_def crawlSourceIds_for_def)

text \<open>Sorting on the negated key, and cutting a descending list.\<close>

lemma sorted_wrt_desc_sort_key:
  "sorted_wrt (\<lambda>a b. f b \<le> f a) (sort_key (\<lambda>r. - f r) xs)" for f :: "'a \<Rightarrow> int"
proof -
  have "sorted (map (\<lambda>r. - f r) (sort_key (\<lambda>r. - f r) xs))" by (rule sorted_sort_key)
  then show ?thesis by (simp add: sorted_map)
qed

lemma take_of_sorted_desc:
  assumes "sorted_wrt (\<lambda>a b. f b \<le> f a) ys"
  shows "sorted_wrt (\<lambda>a b. f b \<le> f a) (take n ys) \<and>
         (\<forall>x \<in> set (drop n ys). \<forall>y \<in> set (take n ys). f x \<le> f y)"
proof -
  from assms have "sorted_wrt (\<lambda>a b. f b \<le> f a) (take n ys @ drop n ys)" by simp
  then show ?thesis unfolding sorted_wrt_append by blast
qed

lemma mset_take_sort_key:
  "mset (take n (sort_key f xs)) + mset (drop n (sort_key f xs)) = mset xs"
  by (metis append_take_drop_id mset_append mset_sort)

text \<open>
  Claim C9. A search finds its user, shapes the rows of its datasets without throwing and
  has a limit that is not negative, where the limit is 20 when it was left out (or 0).
  Then the result list is the results of the datasets that were asked for (follow graph,
  link posts, published sites, in this order), sorted by a stable sort descending by
  \<open>crawledAt\<close> and cut after the limit: it is descending, it has the limit as its length
  unless there are fewer results, its elements are among the results of the datasets, and
  no result that was cut has a greater \<open>crawledAt\<close> than one that was kept.
\<close>

theorem listSearchResults_sorted_limited:
  assumes q: "search_query_of idx nonce opts = Some q"
      and found: "search_candidates idx opts q = Some found"
      and nonneg: "0 \<le> q_limit q"
  shows "\<exists>res users posts sites.
           listSearchResults idx nonce opts = Some res \<and>
           (if wanted (datasets opts) ''followgraph'' then followgraph_results idx q else Some []) = Some users \<and>
           (if wanted (datasets opts) ''link_posts'' then link_posts_results idx q else Some []) = Some posts \<and>
           (if wanted (datasets opts) ''published_sites'' then published_sites_results idx q else Some []) = Some sites \<and>
           found = users @ posts @ sites \<and>
           q_limit q = (case limit opts of None \<Rightarrow> 20 | Some n \<Rightarrow> if n = 0 then 20 else n) \<and>
           results res = take (nat (q_limit q)) (sort_key (\<lambda>r. - result_crawledAt r) found) \<and>
           sorted_wrt (\<lambda>a b. result_crawledAt b \<le> result_crawledAt a) (results res) \<and>
           length (results res) = min (nat (q_limit q)) (length found) \<and>
           mset (results res) \<subseteq># mset found \<and>
           (\<forall>x \<in># mset found - mset (results res). \<forall>y \<in> set (results res).
              result_crawledAt x \<le> result_crawledAt y)"
proof -
  let ?sorted = "sort_key (\<lambda>r. - result_crawledAt r) found"
  let ?res = "\<lparr>highlightNonce = nonce, results = take (nat (q_limit q)) ?sorted\<rparr>"
  have run: "listSearchResults idx nonce opts = Some ?res"
    using q found nonneg by (simp add: listSearchResults_def sort_and_limit_def slice0_def)
  from found obtain users posts sites where parts:
    "(if wanted (datasets opts) ''followgraph'' then followgraph_results idx q else Some []) = Some users"
    "(if wanted (datasets opts) ''link_posts'' then link_posts_results idx q else Some []) = Some posts"
    "(if wanted (datasets opts) ''published_sites'' then published_sites_results idx q else Some []) = Some sites"
    "found = users @ posts @ sites"
    unfolding search_candidates_def by (auto split: option.splits)
  from q have qlim: "q_limit q = (case limit opts of None \<Rightarrow> 20 | Some n \<Rightarrow> if n = 0 then 20 else n)"
    by (auto simp: search_query_of_def or_default_def split: option.splits)
  have desc: "sorted_wrt (\<lambda>a b. result_crawledAt b \<le> result_crawledAt a) ?sorted"
    by (rule sorted_wrt_desc_sort_key)
  note tk = take_of_sorted_desc [OF desc, of "nat (q_limit q)"]
  have len: "length (take (nat (q_limit q)) ?sorted) = min (nat (q_limit q)) (length found)"
    by simp
  have ms: "mset (take (nat (q_limit q)) ?sorted) + mset (drop (nat (q_limit q)) ?sorted) = mset found"
    by (rule mset_take_sort_key)
  then have sub: "mset (take (nat (q_limit q)) ?sorted) \<subseteq># mset found"
    by (metis mset_subset_eq_add_left)
  from ms have rest: "mset found - mset (take (nat (q_limit q)) ?sorted) = mset (drop (nat (q_limit q)) ?sorted)"
    by (metis add_diff_cancel_left')
  have top: "\<forall>x \<in># mset found - mset (take (nat (q_limit q)) ?sorted).
      \<forall>y \<in> set (take (nat (q_limit q)) ?sorted). result_crawledAt x \<le> result_crawledAt y"
    unfolding rest using tk by simp
  show ?thesis
    using run parts qlim tk len sub top
    by (intro exI [of _ ?res] exI [of _ users] exI [of _ posts] exI [of _ sites]) simp
qed

lemmas search_defs = listSearchResults_def search_query_of_def search_candidates_def
  followgraph_results_def link_posts_results_def published_sites_results_def wanted_def
  uniqWith_def prep_query_def or_default_def clamp_hops_def Math_max_def Math_min_def
  crawlSourceIds_for_def followed_source_ids_def sort_and_limit_def slice0_def split_commas_def
  search_fixture_index_def search_fixture_opts_def search_fixture_posts_def search_fixture_query_def

theorem listSearchResults_sorted_limited_witness:
  "search_query_of search_fixture_index 7 search_fixture_opts = Some search_fixture_query \<and>
   search_candidates search_fixture_index search_fixture_opts search_fixture_query =
     link_posts_results search_fixture_index search_fixture_query \<and>
   0 \<le> q_limit search_fixture_query \<and>
   (\<exists>res. listSearchResults search_fixture_index 7 search_fixture_opts = Some res \<and>
      map result_crawledAt (results res) = [9, 7] \<and>
      sorted_wrt (\<lambda>a b. result_crawledAt b \<le> result_crawledAt a) (results res) \<and>
      length (results res) = 2)"
proof -
  have h1: "search_query_of search_fixture_index 7 search_fixture_opts = Some search_fixture_query"
    by (simp add: search_defs)
  have h2: "search_candidates search_fixture_index search_fixture_opts search_fixture_query =
     Some (map (\<lambda>p. Post_result
                  \<lparr>post_url = row_authorUrl p @ row_pathname p,
                   post_author = None,
                   content_url = row_url p, content_title = row_title p,
                   content_description = row_description p,
                   content_type = split_commas (row_type p),
                   crawledAt = row_crawledAt p, createdAt = row_createdAt p,
                   updatedAt' = row_updatedAt p\<rparr>) search_fixture_posts)"
    by (simp add: search_candidates_def followgraph_results_def link_posts_results_def
        published_sites_results_def wanted_def uniqWith_def search_fixture_index_def
        search_fixture_opts_def)
  have h2': "search_candidates search_fixture_index search_fixture_opts search_fixture_query =
     link_posts_results search_fixture_index search_fixture_query"
    unfolding h2 by (simp add: link_posts_results_def search_fixture_index_def)
  have h3: "0 \<le> q_limit search_fixture_query" by (simp add: search_fixture_query_def)
  have v: "map result_crawledAt (take (nat (q_limit search_fixture_query))
       (sort_key (\<lambda>r. - result_crawledAt r)
       (map (\<lambda>p. Post_result
                  \<lparr>post_url = row_authorUrl p @ row_pathname p,
                   post_author = None,
                   content_url = row_url p, content_title = row_title p,
                   content_description = row_description p,
                   content_type = split_commas (row_type p),
                   crawledAt = row_crawledAt p, createdAt = row_createdAt p,
                   updatedAt' = row_updatedAt p\<rparr>) search_fixture_posts))) = [9, 7]"
    by (simp add: search_fixture_posts_def search_fixture_query_def)
  from listSearchResults_sorted_limited [OF h1 h2 h3] obtain res where
    "listSearchResults search_fixture_index 7 search_fixture_opts = Some res"
    "results res = take (nat (q_limit search_fixture_query)) (sort_key (\<lambda>r. - result_crawledAt r)
       (map (\<lambda>p. Post_result
                  \<lparr>post_url = row_authorUrl p @ row_pathname p,
                   post_author = None,
                   content_url = row_url p, content_title = row_title p,
                   content_description = row_description p,
                   content_type = split_commas (row_type p),
                   crawledAt = row_crawledAt p, createdAt = row_createdAt p,
                   updatedAt' = row_updatedAt p\<rparr>) search_fixture_posts))"
    "sorted_wrt (\<lambda>a b. result_crawledAt b \<le> result_crawledAt a) (results res)"
    "length (results res) = min (nat (q_limit search_fixture_query)) (length search_fixture_posts)"
    by auto
  with v h1 h2' h3 show ?thesis
    by (intro conjI exI [of _ res]) (simp_all add: search_fixture_query_def search_fixture_posts_def)
qed

text \<open>
  Claim C10. The suggestions have \<open>bookmarks\<close> exactly when the query is given and is
  not empty, and \<open>history\<close> exactly then; each of the two lists, when it is there, has at
  most 12 entries.
\<close>

theorem listSuggestions_bookmarks_history:
  "(bookmarks (listSuggestions src query_arg filterPins) \<noteq> None) = (\<exists>s. query_arg = Some s \<and> s \<noteq> []) \<and>
   (history' (listSuggestions src query_arg filterPins) \<noteq> None) = (\<exists>s. query_arg = Some s \<and> s \<noteq> []) \<and>
   (\<forall>bs. bookmarks (listSuggestions src query_arg filterPins) = Some bs \<longrightarrow> length bs \<le> 12) \<and>
   (\<forall>hs. history' (listSuggestions src query_arg filterPins) = Some hs \<longrightarrow> length hs \<le> 12)"
  by (cases query_arg) (auto simp: listSuggestions_def Let_def)

theorem listSuggestions_bookmarks_history_witness:
  "(\<exists>bs. bookmarks (listSuggestions suggestion_fixture (Some ''beaker'') False) = Some bs \<and> length bs \<le> 12) \<and>
   (\<exists>hs. history' (listSuggestions suggestion_fixture (Some ''beaker'') False) = Some hs \<and> length hs \<le> 12) \<and>
   bookmarks (listSuggestions suggestion_fixture None False) = None \<and>
   history' (listSuggestions suggestion_fixture (Some '''') False) = None"
  using listSuggestions_bookmarks_history [of suggestion_fixture "Some ''beaker''" False]
    listSuggestions_bookmarks_history [of suggestion_fixture None False]
    listSuggestions_bookmarks_history [of suggestion_fixture "Some ''''" False]
  by auto

end
